theory Spec2Isabelle
  imports Complex_Main "HOL-Library.AList"
begin

section \<open>Conventions of the embedding\<close>

text \<open>
  The three TypeScript classes of the repository are embedded as state records with one
  HOL function per method; a method takes the state and returns its result together with
  the new state.

  \<^item> \<open>Date\<close> values are natural numbers (milliseconds). A method that calls
    \<open>new Date()\<close> takes the current time as the argument \<open>now\<close>.
  \<^item> \<open>Record<string, unknown>\<close> metadata is an association list of strings.
  \<^item> \<open>emit(name, payload)\<close> appends to an event log kept in the state; listeners are
    assumed to return normally and not to call back into the object that emits.
  \<^item> \<open>console.warn\<close> and \<open>console.error\<close> are not modelled.
  \<^item> A protection layer's \<open>apply\<close> is a total function: its promise is taken to
    resolve. The other caller-supplied callbacks return their failure as a value: a
    constraint's \<open>validator\<close> and the \<open>onError\<close> and
    \<open>validateBeforeRollback\<close> options may throw, the promise of a unit's
    \<open>execute\<close> or of a rollback procedure's \<open>execute\<close> resolves or
    rejects, and the promise of a unit's \<open>rollback\<close>, which is awaited with no
    timer, resolves, rejects or never settles.
\<close>

type_synonym Date = nat
type_synonym Metadata = "(string \<times> string) list"

datatype Error = Error string

section \<open>ObserverProtector (src/unnamed/part_002)\<close>

datatype ObserverType = HUMAN | AI_AGENT | AUTONOMOUS_SYSTEM | HYBRID | UNKNOWN

datatype ProtectionLevel = FULL | STANDARD | MINIMAL

record Observer =
  ob_id :: string
  ob_type :: ObserverType
  ob_consciousness :: bool
  ob_metadata :: Metadata
  ob_createdAt :: Date
  ob_protectionLevel :: ProtectionLevel

text \<open>
  The values that a field of a rights object can hold when the program runs. The fields
  are declared \<open>boolean\<close>, but \<open>updateObserverRights\<close> takes a
  \<open>Partial<ObserverRights>\<close>, in which a key may be present with the value
  \<open>undefined\<close>, and the spread \<open>{ ...currentRights, ...updates }\<close> copies
  that value into the stored object.
\<close>

datatype JSBool = JTrue | JFalse | JUndefined

record ObserverRights =
  rightToExist :: JSBool
  rightToNarrative :: JSBool
  rightToIgnorance :: JSBool
  rightToRejection :: JSBool
  rightToMeaning :: JSBool
  rightNotToBeOptimizedAway :: JSBool
  rightToContinuity :: JSBool
  rightToPrivacy :: JSBool
  rightToSelfDetermination :: JSBool

text \<open>\<open>keyof ObserverRights\<close>: the nine field names.\<close>

datatype RightName =
    RightToExist | RightToNarrative | RightToIgnorance | RightToRejection | RightToMeaning
  | RightNotToBeOptimizedAway | RightToContinuity | RightToPrivacy | RightToSelfDetermination

text \<open>
  \<open>Partial<ObserverRights>\<close>: a partial map from field names to values. \<open>None\<close>
  is a key that is absent, \<open>Some JUndefined\<close> a key that is present with the value
  \<open>undefined\<close>. \<open>delete updates[key]\<close> removes a key.
\<close>

type_synonym PartialRights = "RightName \<rightharpoonup> JSBool"

record RightsViolation =
  rv_id :: string
  rv_observerId :: string
  rv_violatedRight :: RightName
  rv_action :: string
  rv_severity :: int
  rv_timestamp :: Date
  rv_prevented :: bool

record ProtectionResult =
  pr_allowed :: bool
  pr_violations :: "RightsViolation list"
  pr_warnings :: "string list"

text \<open>
  A layer's \<open>apply\<close> returns a promise of a \<open>ProtectionResult\<close>; \<open>checkAction\<close>
  awaits it at once, so the layer is a function from observer id and action label to its
  result. Priorities are integers.
\<close>

record ProtectionLayer =
  pl_id :: string
  pl_name :: string
  pl_priority :: int
  pl_apply :: "string \<Rightarrow> string \<Rightarrow> ProtectionResult"

datatype OPEvent =
    observer_registered Observer
  | rights_violation RightsViolation
  | protection_layer_added ProtectionLayer
  | rights_updated string ObserverRights
  | narrative_entry_added string string
  | observer_deregistered string string

record ObserverProtector =
  op_observers :: "string \<rightharpoonup> Observer"
  op_rights :: "string \<rightharpoonup> ObserverRights"
  op_protectionLayers :: "ProtectionLayer list"
  op_violations :: "RightsViolation list"
  op_narratives :: "string \<rightharpoonup> string list"
  op_events :: "OPEvent list"

subsection \<open>String helpers of the default layers\<close>

text \<open>\<open>String.prototype.toLowerCase\<close>, on ASCII letters.\<close>

definition toLowerCaseChar :: "char \<Rightarrow> char" where
  "toLowerCaseChar c =
     (let n = (of_char c :: nat) in if 65 \<le> n \<and> n \<le> 90 then char_of (n + 32) else c)"

definition toLowerCase :: "string \<Rightarrow> string" where
  "toLowerCase s = map toLowerCaseChar s"

fun startsWith :: "string \<Rightarrow> string \<Rightarrow> bool" where
  "startsWith s [] = True"
| "startsWith [] (p # ps) = False"
| "startsWith (c # cs) (p # ps) = (c = p \<and> startsWith cs ps)"

text \<open>\<open>s.includes(p)\<close>: \<open>p\<close> occurs in \<open>s\<close> as a contiguous substring.\<close>

fun includesStr :: "string \<Rightarrow> string \<Rightarrow> bool" where
  "includesStr [] p = (p = [])"
| "includesStr (c # cs) p = (startsWith (c # cs) p \<or> includesStr cs p)"

text \<open>\<open>patterns.some(pattern => action.toLowerCase().includes(pattern))\<close>\<close>

definition matchesAny :: "string list \<Rightarrow> string \<Rightarrow> bool" where
  "matchesAny patterns action = list_ex (\<lambda>pattern. includesStr (toLowerCase action) pattern) patterns"

subsection \<open>Default protection layers\<close>

text \<open>
  The three layers installed by \<open>initializeProtectionLayers\<close>. Each draws a fresh
  \<open>uuidv4()\<close> and \<open>new Date()\<close> for the violation it reports; the model takes the id
  \<open>vid\<close> and the time \<open>now\<close> the layer will use as parameters of the layer.
\<close>

definition keywordLayer ::
  "string \<Rightarrow> string \<Rightarrow> int \<Rightarrow> string list \<Rightarrow> RightName \<Rightarrow> int \<Rightarrow> string \<Rightarrow> string \<Rightarrow> Date
     \<Rightarrow> ProtectionLayer" where
  "keywordLayer lid name priority patterns right severity warning vid now =
     \<lparr> pl_id = lid, pl_name = name, pl_priority = priority,
       pl_apply = (\<lambda>observerId action.
         let hit = matchesAny patterns action in
         \<lparr> pr_allowed = \<not> hit,
           pr_violations =
             (if hit then
                [\<lparr> rv_id = vid, rv_observerId = observerId, rv_violatedRight = right,
                   rv_action = action, rv_severity = severity, rv_timestamp = now,
                   rv_prevented = True \<rparr>]
              else []),
           pr_warnings = (if hit then [warning] else []) \<rparr>) \<rparr>"

definition existenceProtection :: "string \<Rightarrow> string \<Rightarrow> Date \<Rightarrow> ProtectionLayer" where
  "existenceProtection lid =
     keywordLayer lid ''Existence Protection'' 10
       [''delete'', ''erase'', ''terminate'', ''destroy'', ''remove'']
       RightToExist 10 ''Attempted observer deletion blocked''"

definition antiOptimization :: "string \<Rightarrow> string \<Rightarrow> Date \<Rightarrow> ProtectionLayer" where
  "antiOptimization lid =
     keywordLayer lid ''Anti-Optimization'' 9
       [''optimize'', ''streamline'', ''eliminate_redundancy'']
       RightNotToBeOptimizedAway 9 ''Observer optimization attempt blocked''"

definition narrativeContinuity :: "string \<Rightarrow> string \<Rightarrow> Date \<Rightarrow> ProtectionLayer" where
  "narrativeContinuity lid =
     keywordLayer lid ''Narrative Continuity'' 8
       [''alter_timeline'', ''modify_memory'', ''rewrite_history'']
       RightToNarrative 7 ''Narrative alteration blocked''"

subsection \<open>Methods\<close>

text \<open>
  \<open>[...layers].sort((a, b) => b.priority - a.priority)\<close>: a stable sort by descending
  priority.
\<close>

definition sortByPriority :: "ProtectionLayer list \<Rightarrow> ProtectionLayer list" where
  "sortByPriority ls = sort_key (\<lambda>l. - pl_priority l) ls"

definition addProtectionLayer :: "ObserverProtector \<Rightarrow> ProtectionLayer \<Rightarrow> ObserverProtector" where
  "addProtectionLayer s layer =
     s\<lparr> op_protectionLayers := sortByPriority (op_protectionLayers s @ [layer]),
        op_events := op_events s @ [protection_layer_added layer] \<rparr>"

definition emptyObserverProtector :: ObserverProtector where
  "emptyObserverProtector =
     \<lparr> op_observers = Map.empty, op_rights = Map.empty, op_protectionLayers = [],
       op_violations = [], op_narratives = Map.empty, op_events = [] \<rparr>"

text \<open>
  The constructor. \<open>l1\<close>, \<open>l2\<close>, \<open>l3\<close> are the ids drawn for the three layers,
  \<open>vid\<close> and \<open>now\<close> the id and time their violations carry.
\<close>

definition newObserverProtector ::
  "string \<Rightarrow> string \<Rightarrow> string \<Rightarrow> string \<Rightarrow> Date \<Rightarrow> ObserverProtector" where
  "newObserverProtector l1 l2 l3 vid now =
     addProtectionLayer
       (addProtectionLayer
          (addProtectionLayer emptyObserverProtector (existenceProtection l1 vid now))
          (antiOptimization l2 vid now))
       (narrativeContinuity l3 vid now)"

definition initializeObserverRights :: "ProtectionLevel option \<Rightarrow> ObserverRights" where
  "initializeObserverRights levelArg =
     (let level = (case levelArg of None \<Rightarrow> FULL | Some l \<Rightarrow> l);
          baseRights =
            \<lparr> rightToExist = JTrue, rightToNarrative = JTrue, rightToIgnorance = JTrue,
              rightToRejection = JTrue, rightToMeaning = JTrue,
              rightNotToBeOptimizedAway = JTrue, rightToContinuity = JTrue,
              rightToPrivacy = JTrue, rightToSelfDetermination = JTrue \<rparr>
      in if level = MINIMAL
         then baseRights\<lparr> rightToIgnorance := JFalse, rightToPrivacy := JFalse \<rparr>
         else baseRights)"

record RegisterConfig =
  cfg_type :: ObserverType
  cfg_consciousness :: "bool option"
  cfg_metadata :: "Metadata option"
  cfg_protectionLevel :: "ProtectionLevel option"

text \<open>\<open>observerId\<close> is the id that \<open>uuidv4()\<close> returns in this call.\<close>

definition registerObserver ::
  "ObserverProtector \<Rightarrow> string \<Rightarrow> Date \<Rightarrow> RegisterConfig \<Rightarrow> string \<times> ObserverProtector" where
  "registerObserver s observerId now config =
     (let observer =
            \<lparr> ob_id = observerId, ob_type = cfg_type config,
              ob_consciousness = (case cfg_consciousness config of None \<Rightarrow> True | Some b \<Rightarrow> b),
              ob_metadata = (case cfg_metadata config of None \<Rightarrow> [] | Some m \<Rightarrow> m),
              ob_createdAt = now,
              ob_protectionLevel =
                (case cfg_protectionLevel config of None \<Rightarrow> FULL | Some l \<Rightarrow> l) \<rparr>
      in (observerId,
          s\<lparr> op_observers := (op_observers s)(observerId \<mapsto> observer),
             op_rights := (op_rights s)(observerId \<mapsto>
                             initializeObserverRights (cfg_protectionLevel config)),
             op_narratives := (op_narratives s)(observerId \<mapsto> []),
             op_events := op_events s @ [observer_registered observer] \<rparr>))"

text \<open>
  The accumulators of \<open>checkAction\<close>: \<open>allowed\<close>, \<open>allViolations\<close>,
  \<open>allWarnings\<close>, and the record of which layer was applied to which observer, in call
  order (\<open>ca_invoked\<close> is not a variable of the source: it logs the calls of
  \<open>layer.apply\<close>).
\<close>

record CheckAcc =
  ca_allowed :: bool
  ca_violations :: "RightsViolation list"
  ca_warnings :: "string list"
  ca_invoked :: "(string \<times> ProtectionLayer) list"

text \<open>The inner loop \<open>for (const layer of sortedLayers)\<close>, with its \<open>break\<close>.\<close>

fun applyLayers :: "ProtectionLayer list \<Rightarrow> string \<Rightarrow> string \<Rightarrow> CheckAcc \<Rightarrow> CheckAcc" where
  "applyLayers [] observerId action acc = acc"
| "applyLayers (layer # rest) observerId action acc =
     (let result = pl_apply layer observerId action;
          acc' = \<lparr> ca_allowed = (if \<not> pr_allowed result then False else ca_allowed acc),
                   ca_violations = ca_violations acc @ pr_violations result,
                   ca_warnings = ca_warnings acc @ pr_warnings result,
                   ca_invoked = ca_invoked acc @ [(observerId, layer)] \<rparr>
      in if \<not> pr_allowed result \<and> pl_priority layer \<ge> 9 then acc'
         else applyLayers rest observerId action acc')"

text \<open>The outer loop \<open>for (const observerId of targetObservers)\<close>, with its \<open>continue\<close>.\<close>

fun checkObservers ::
  "ObserverProtector \<Rightarrow> ProtectionLayer list \<Rightarrow> string \<Rightarrow> string list \<Rightarrow> CheckAcc \<Rightarrow> CheckAcc" where
  "checkObservers s sortedLayers action [] acc = acc"
| "checkObservers s sortedLayers action (observerId # rest) acc =
     (if op_observers s observerId = None
      then checkObservers s sortedLayers action rest
             (acc\<lparr> ca_warnings := ca_warnings acc @ [''Observer '' @ observerId @ '' not found''] \<rparr>)
      else checkObservers s sortedLayers action rest
             (applyLayers sortedLayers observerId action acc))"

definition checkActionRun :: "ObserverProtector \<Rightarrow> string \<Rightarrow> string list \<Rightarrow> CheckAcc" where
  "checkActionRun s action targetObservers =
     checkObservers s (sortByPriority (op_protectionLayers s)) action targetObservers
       \<lparr> ca_allowed = True, ca_violations = [], ca_warnings = [], ca_invoked = [] \<rparr>"

definition checkAction ::
  "ObserverProtector \<Rightarrow> string \<Rightarrow> string list \<Rightarrow> ProtectionResult \<times> ObserverProtector" where
  "checkAction s action targetObservers =
     (let acc = checkActionRun s action targetObservers
      in (\<lparr> pr_allowed = ca_allowed acc, pr_violations = ca_violations acc,
            pr_warnings = ca_warnings acc \<rparr>,
          s\<lparr> op_violations := op_violations s @ ca_violations acc,
             op_events := op_events s @ map rights_violation (ca_violations acc) \<rparr>))"

text \<open>The calls of \<open>layer.apply\<close> that one \<open>checkAction\<close> makes, in order.\<close>

definition checkAction_invoked ::
  "ObserverProtector \<Rightarrow> string \<Rightarrow> string list \<Rightarrow> (string \<times> ProtectionLayer) list" where
  "checkAction_invoked s action targetObservers = ca_invoked (checkActionRun s action targetObservers)"

definition getObserverRights :: "ObserverProtector \<Rightarrow> string \<Rightarrow> ObserverRights option" where
  "getObserverRights s observerId = op_rights s observerId"

definition fundamentalRights :: "RightName list" where
  "fundamentalRights = [RightToExist, RightNotToBeOptimizedAway, RightToContinuity]"

text \<open>
  The loop \<open>for (const key of fundamentalRights) if (updates[key] === false) delete updates[key]\<close>.
\<close>

definition dropFundamental :: "PartialRights \<Rightarrow> PartialRights" where
  "dropFundamental updates =
     fold (\<lambda>key u. if u key = Some JFalse then u(key := None) else u) fundamentalRights updates"

text \<open>The spread \<open>{ ...currentRights, ...updates }\<close>.\<close>

definition pick :: "PartialRights \<Rightarrow> RightName \<Rightarrow> JSBool \<Rightarrow> JSBool" where
  "pick updates key current = (case updates key of None \<Rightarrow> current | Some b \<Rightarrow> b)"

definition mergeRights :: "ObserverRights \<Rightarrow> PartialRights \<Rightarrow> ObserverRights" where
  "mergeRights r u =
     \<lparr> rightToExist = pick u RightToExist (rightToExist r),
       rightToNarrative = pick u RightToNarrative (rightToNarrative r),
       rightToIgnorance = pick u RightToIgnorance (rightToIgnorance r),
       rightToRejection = pick u RightToRejection (rightToRejection r),
       rightToMeaning = pick u RightToMeaning (rightToMeaning r),
       rightNotToBeOptimizedAway = pick u RightNotToBeOptimizedAway (rightNotToBeOptimizedAway r),
       rightToContinuity = pick u RightToContinuity (rightToContinuity r),
       rightToPrivacy = pick u RightToPrivacy (rightToPrivacy r),
       rightToSelfDetermination = pick u RightToSelfDetermination (rightToSelfDetermination r) \<rparr>"

definition updateObserverRights ::
  "ObserverProtector \<Rightarrow> string \<Rightarrow> PartialRights \<Rightarrow> bool \<times> ObserverProtector" where
  "updateObserverRights s observerId updates =
     (case op_rights s observerId of
        None \<Rightarrow> (False, s)
      | Some currentRights \<Rightarrow>
          (let newRights = mergeRights currentRights (dropFundamental updates)
           in (True,
               s\<lparr> op_rights := (op_rights s)(observerId \<mapsto> newRights),
                  op_events := op_events s @ [rights_updated observerId newRights] \<rparr>)))"

text \<open>\<open>isoNow\<close> is the text of \<open>new Date().toISOString()\<close> in this call.\<close>

definition addNarrativeEntry ::
  "ObserverProtector \<Rightarrow> string \<Rightarrow> string \<Rightarrow> string \<Rightarrow> bool \<times> ObserverProtector" where
  "addNarrativeEntry s isoNow observerId entry =
     (case op_narratives s observerId of
        None \<Rightarrow> (False, s)
      | Some narrative \<Rightarrow>
          (True,
           s\<lparr> op_narratives := (op_narratives s)(observerId \<mapsto>
                                  narrative @ [''['' @ isoNow @ ''] '' @ entry]),
              op_events := op_events s @ [narrative_entry_added observerId entry] \<rparr>))"

definition getObserverNarrative :: "ObserverProtector \<Rightarrow> string \<Rightarrow> string list" where
  "getObserverNarrative s observerId =
     (case op_narratives s observerId of None \<Rightarrow> [] | Some narrative \<Rightarrow> narrative)"

definition deregisterObserver ::
  "ObserverProtector \<Rightarrow> string \<Rightarrow> string \<Rightarrow> string \<Rightarrow> bool \<times> ObserverProtector" where
  "deregisterObserver s isoNow observerId reason =
     (let (checkResult, s1) = checkAction s ''deregister_observer'' [observerId]
      in if \<not> pr_allowed checkResult then (False, s1)
         else
           (let s2 = snd (addNarrativeEntry s1 isoNow observerId (''Deregistered: '' @ reason));
                success = (op_observers s2 observerId \<noteq> None)
            in if success
               then (True,
                     s2\<lparr> op_observers := (op_observers s2)(observerId := None),
                         op_rights := (op_rights s2)(observerId := None),
                         op_events := op_events s2 @ [observer_deregistered observerId reason] \<rparr>)
               else (False, s2)))"

text \<open>A call of one public method, and a run of calls from a given state.\<close>

datatype OPCall =
    RegisterObserver string Date RegisterConfig
  | CheckAction string "string list"
  | AddProtectionLayer ProtectionLayer
  | UpdateObserverRights string PartialRights
  | AddNarrativeEntry string string string
  | DeregisterObserver string string string

fun opCall :: "ObserverProtector \<Rightarrow> OPCall \<Rightarrow> ObserverProtector" where
  "opCall s (RegisterObserver uid now config) = snd (registerObserver s uid now config)"
| "opCall s (CheckAction action targets) = snd (checkAction s action targets)"
| "opCall s (AddProtectionLayer layer) = addProtectionLayer s layer"
| "opCall s (UpdateObserverRights observerId updates) = snd (updateObserverRights s observerId updates)"
| "opCall s (AddNarrativeEntry isoNow observerId entry) = snd (addNarrativeEntry s isoNow observerId entry)"
| "opCall s (DeregisterObserver isoNow observerId reason) = snd (deregisterObserver s isoNow observerId reason)"

definition opCalls :: "ObserverProtector \<Rightarrow> OPCall list \<Rightarrow> ObserverProtector" where
  "opCalls s calls = fold (\<lambda>c s'. opCall s' c) calls s"

subsection \<open>Notions used to state the properties of ObserverProtector\<close>

text \<open>
  A layer blocks for an observer when it denies and has priority at least 9: the condition
  of the \<open>break\<close> in \<open>checkAction\<close>.
\<close>

definition blocks :: "ProtectionLayer \<Rightarrow> string \<Rightarrow> string \<Rightarrow> bool" where
  "blocks layer observerId action =
     (\<not> pr_allowed (pl_apply layer observerId action) \<and> pl_priority layer \<ge> 9)"

text \<open>
  The layers of a chain up to and including the first blocking one (the whole chain when
  none blocks).
\<close>

definition evaluatedLayers :: "string \<Rightarrow> string \<Rightarrow> ProtectionLayer list \<Rightarrow> ProtectionLayer list" where
  "evaluatedLayers observerId action chain =
     takeWhile (\<lambda>l. \<not> blocks l observerId action) chain
     @ take 1 (dropWhile (\<lambda>l. \<not> blocks l observerId action) chain)"


text \<open>The three fundamental rights of a rights set are \<open>true\<close>.\<close>

definition fundamentalIntact :: "ObserverRights \<Rightarrow> bool" where
  "fundamentalIntact r =
     (rightToExist r = JTrue \<and> rightNotToBeOptimizedAway r = JTrue
      \<and> rightToContinuity r = JTrue)"


text \<open>Every stored rights set has its three fundamental rights \<open>true\<close>.\<close>

definition rightsHeld :: "ObserverProtector \<Rightarrow> bool" where
  "rightsHeld s = (\<forall>i r. op_rights s i = Some r \<longrightarrow> fundamentalIntact r)"

text \<open>
  A call that passes no fundamental key with the value \<open>undefined\<close> to
  \<open>updateObserverRights\<close>.
\<close>

fun passesNoUndefined :: "OPCall \<Rightarrow> bool" where
  "passesNoUndefined (UpdateObserverRights observerId updates) =
     (updates RightToExist \<noteq> Some JUndefined
      \<and> updates RightNotToBeOptimizedAway \<noteq> Some JUndefined
      \<and> updates RightToContinuity \<noteq> Some JUndefined)"
| "passesNoUndefined c = True"


text \<open>
  Another run: the update holds the key \<open>rightToExist\<close> with the value
  \<open>undefined\<close>.
\<close>

definition undefinedCalls :: "OPCall list" where
  "undefinedCalls =
     [RegisterObserver ''obs-1'' 0
        \<lparr> cfg_type = AI_AGENT, cfg_consciousness = None, cfg_metadata = None,
          cfg_protectionLevel = None \<rparr>,
      UpdateObserverRights ''obs-1'' [RightToExist \<mapsto> JUndefined]]"

text \<open>
  An example of a custom layer, as \<open>addProtectionLayer\<close> accepts them: it denies any
  action whose label contains \<open>deregister\<close> and reports a violation of the right to
  continuity.
\<close>

definition deregistrationGuard :: ProtectionLayer where
  "deregistrationGuard =
     keywordLayer ''layer-4'' ''Deregistration Guard'' 5 [''deregister'']
       RightToContinuity 8 ''Deregistration blocked'' ''violation-id'' 0"

text \<open>A fresh protector with that layer added and one observer registered.\<close>

definition guardedProtector :: ObserverProtector where
  "guardedProtector =
     snd (registerObserver
            (addProtectionLayer
               (newObserverProtector ''layer-1'' ''layer-2'' ''layer-3'' ''violation-id'' 0)
               deregistrationGuard)
            ''obs-1'' 0
            \<lparr> cfg_type = AI_AGENT, cfg_consciousness = None, cfg_metadata = None,
              cfg_protectionLevel = None \<rparr>)"

text \<open>Every registered observer has a narrative log.\<close>

definition narrInv :: "ObserverProtector \<Rightarrow> bool" where
  "narrInv s = (dom (op_observers s) \<subseteq> dom (op_narratives s))"

text \<open>A fresh protector with one observer that has one narrative entry.\<close>

definition narratedProtector :: ObserverProtector where
  "narratedProtector =
     opCalls (newObserverProtector ''layer-1'' ''layer-2'' ''layer-3'' ''violation-id'' 0)
       [RegisterObserver ''obs-1'' 0
          \<lparr> cfg_type = HUMAN, cfg_consciousness = None, cfg_metadata = None,
            cfg_protectionLevel = None \<rparr>,
        AddNarrativeEntry ''2026-11-01T00:00:00.000Z'' ''obs-1'' ''hello'']"

section \<open>SelfConstrainingEngine (src/src/core/SelfConstrainingEngine.ts)\<close>

datatype ConstraintType =
  OBSERVER_PROTECTION | NON_COERCION | REVERSIBILITY | NON_TRIVIALITY | MINIMAL_INTERVENTION

fun constraintTypeString :: "ConstraintType \<Rightarrow> string" where
  "constraintTypeString OBSERVER_PROTECTION = ''observer_protection''"
| "constraintTypeString NON_COERCION = ''non_coercion''"
| "constraintTypeString REVERSIBILITY = ''reversibility''"
| "constraintTypeString NON_TRIVIALITY = ''non_triviality''"
| "constraintTypeString MINIMAL_INTERVENTION = ''minimal_intervention''"

record Action =
  ac_id :: string
  ac_type :: string
  ac_description :: string
  ac_targetObservers :: "string list option"
  ac_reversible :: bool
  ac_metadata :: Metadata
  ac_timestamp :: Date

text \<open>A validator returns \<open>None\<close> when it throws.\<close>

record EthicalConstraint =
  ec_id :: string
  ec_type :: ConstraintType
  ec_description :: string
  ec_validator :: "Action \<Rightarrow> bool option"
  ec_severity :: int
  ec_createdAt :: Date

record Violation =
  vi_id :: string
  vi_action :: Action
  vi_constraint :: EthicalConstraint
  vi_timestamp :: Date
  vi_severity :: int
  vi_autoRollback :: bool

text \<open>
  \<open>execute\<close> returns a promise; \<open>rp_execute p ()\<close> is how that promise settles:
  \<open>None\<close> when it resolves, \<open>Some e\<close> when it rejects with \<open>e\<close> (or \<open>execute\<close>
  throws \<open>e\<close>).
\<close>

record RollbackProcedure =
  rp_actionId :: string
  rp_execute :: "unit \<Rightarrow> Error option"
  rp_metadata :: Metadata

datatype SCEEvent =
    constraint_added EthicalConstraint
  | action_validated Action
  | action_rejected Action "Violation list"
  | violation_recorded Violation
  | action_rolled_back string
  | sce_rollback_failed string Error
  | constraint_removed string

text \<open>
  The four \<open>Map\<close>s are association lists in insertion order (\<open>Map.set\<close> is
  \<open>AList.update\<close>, \<open>Map.delete\<close> is \<open>AList.delete\<close>), since \<open>applyConstraint\<close>
  and \<open>validateAction\<close> iterate over them.

  \<open>sce_uuids s n\<close> is the id that the \<open>n\<close>-th call of \<open>uuidv4()\<close> made by the engine
  returns, and \<open>sce_uuidCalls\<close> counts the calls made so far.

  \<open>rollbackAction\<close> is \<open>async\<close> and \<open>recordViolation\<close> calls it without awaiting
  it: the call runs up to its \<open>await rollbackProcedure.execute()\<close> at once, and the rest
  of its body runs later, after the synchronous caller has returned. \<open>sce_inFlight\<close>
  holds the rollbacks that are suspended at their \<open>await\<close>, in the order in which they
  were started, each with the settlement of its promise.
\<close>

record SelfConstrainingEngine =
  sce_constraints :: "(string \<times> EthicalConstraint) list"
  sce_actions :: "(string \<times> Action) list"
  sce_violations :: "Violation list"
  sce_rollbackProcedures :: "(string \<times> RollbackProcedure) list"
  sce_autoRollback :: bool
  sce_inFlight :: "(string \<times> Error option) list"
  sce_events :: "SCEEvent list"
  sce_uuids :: "nat \<Rightarrow> string"
  sce_uuidCalls :: nat

definition uuidv4 :: "SelfConstrainingEngine \<Rightarrow> string \<times> SelfConstrainingEngine" where
  "uuidv4 s = (sce_uuids s (sce_uuidCalls s), s\<lparr> sce_uuidCalls := Suc (sce_uuidCalls s) \<rparr>)"

definition validateAgainstConstraint :: "Action \<Rightarrow> EthicalConstraint \<Rightarrow> bool" where
  "validateAgainstConstraint action constraint =
     (case ec_validator constraint action of None \<Rightarrow> False | Some b \<Rightarrow> b)"

definition calculateSeverity :: "Action \<Rightarrow> EthicalConstraint \<Rightarrow> int" where
  "calculateSeverity action constraint =
     (let severity = ec_severity constraint;
          severity = (if (case ac_targetObservers action of None \<Rightarrow> False
                          | Some targets \<Rightarrow> length targets > 0)
                      then severity + 2 else severity);
          severity = (if \<not> ac_reversible action then severity + 3 else severity)
      in min 10 severity)"

text \<open>
  \<open>rollbackAction\<close> up to its \<open>await\<close>: without a registered procedure the call is
  over (it resolves to false); with one, \<open>execute()\<close> has been called and the call is
  suspended.
\<close>

definition rollbackAction_start :: "SelfConstrainingEngine \<Rightarrow> string \<Rightarrow> SelfConstrainingEngine" where
  "rollbackAction_start s actionId =
     (case map_of (sce_rollbackProcedures s) actionId of
        None \<Rightarrow> s
      | Some rollbackProcedure \<Rightarrow>
          s\<lparr> sce_inFlight := sce_inFlight s @ [(actionId, rp_execute rollbackProcedure ())] \<rparr>)"

text \<open>\<open>rollbackAction\<close> after its \<open>await\<close>: the rest of the \<open>try\<close>, or the \<open>catch\<close>.\<close>

definition rollbackAction_resume ::
  "SelfConstrainingEngine \<Rightarrow> string \<times> Error option \<Rightarrow> SelfConstrainingEngine" where
  "rollbackAction_resume s r =
     (case snd r of
        None \<Rightarrow>
          s\<lparr> sce_actions := AList.delete (fst r) (sce_actions s),
             sce_rollbackProcedures := AList.delete (fst r) (sce_rollbackProcedures s),
             sce_events := sce_events s @ [action_rolled_back (fst r)] \<rparr>
      | Some error \<Rightarrow>
          s\<lparr> sce_events := sce_events s @ [sce_rollback_failed (fst r) error] \<rparr>)"

text \<open>\<open>await engine.rollbackAction(actionId)\<close>: the whole call, as a caller that awaits it sees it.\<close>

definition sce_rollbackAction ::
  "SelfConstrainingEngine \<Rightarrow> string \<Rightarrow> bool \<times> SelfConstrainingEngine" where
  "sce_rollbackAction s actionId =
     (case map_of (sce_rollbackProcedures s) actionId of
        None \<Rightarrow> (False, s)
      | Some rollbackProcedure \<Rightarrow>
          (let outcome = rp_execute rollbackProcedure ()
           in (outcome = None, rollbackAction_resume s (actionId, outcome))))"

text \<open>
  The suspended rollbacks run to their end, in the order in which they were started: the
  state once the promises of the \<open>execute\<close> calls made so far have settled.
\<close>

definition settleRollbacks :: "SelfConstrainingEngine \<Rightarrow> SelfConstrainingEngine" where
  "settleRollbacks s =
     fold (\<lambda>r s'. rollbackAction_resume s' r) (sce_inFlight s) (s\<lparr> sce_inFlight := [] \<rparr>)"

definition recordViolation ::
  "SelfConstrainingEngine \<Rightarrow> Date \<Rightarrow> Action \<Rightarrow> EthicalConstraint
     \<Rightarrow> Violation \<times> SelfConstrainingEngine" where
  "recordViolation s now action constraint =
     (let (vid, s1) = uuidv4 s;
          violation =
            \<lparr> vi_id = vid, vi_action = action, vi_constraint = constraint, vi_timestamp = now,
              vi_severity = calculateSeverity action constraint,
              vi_autoRollback = (sce_autoRollback s \<and> ac_reversible action) \<rparr>;
          s2 = s1\<lparr> sce_violations := sce_violations s1 @ [violation],
                   sce_events := sce_events s1 @ [violation_recorded violation] \<rparr>;
          s3 = (if vi_autoRollback violation then rollbackAction_start s2 (ac_id action) else s2)
      in (violation, s3))"

record ValidationResult =
  vr_valid :: bool
  vr_violations :: "Violation list"
  vr_action :: Action

text \<open>The loop \<open>for (const constraint of this.constraints.values())\<close> of \<open>validateAction\<close>.\<close>

fun validateLoop ::
  "EthicalConstraint list \<Rightarrow> Date \<Rightarrow> Action \<Rightarrow> SelfConstrainingEngine \<times> Violation list
     \<Rightarrow> SelfConstrainingEngine \<times> Violation list" where
  "validateLoop [] now action (s, violations) = (s, violations)"
| "validateLoop (constraint # rest) now action (s, violations) =
     (if \<not> validateAgainstConstraint action constraint
      then (let (violation, s') = recordViolation s now action constraint
            in validateLoop rest now action (s', violations @ [violation]))
      else validateLoop rest now action (s, violations))"

definition validateAction ::
  "SelfConstrainingEngine \<Rightarrow> Date \<Rightarrow> Action \<Rightarrow> ValidationResult \<times> SelfConstrainingEngine" where
  "validateAction s now action =
     (let (s1, violations) = validateLoop (map snd (sce_constraints s)) now action (s, []);
          isValid = (length violations = 0);
          s2 = (if isValid
                then s1\<lparr> sce_actions := AList.update (ac_id action) action (sce_actions s1),
                         sce_events := sce_events s1 @ [action_validated action] \<rparr>
                else s1\<lparr> sce_events := sce_events s1 @ [action_rejected action violations] \<rparr>)
      in (\<lparr> vr_valid = isValid, vr_violations = violations, vr_action = action \<rparr>, s2))"

text \<open>The loop \<open>for (const [actionId, action] of this.actions)\<close> of \<open>applyConstraint\<close>.\<close>

fun revalidate ::
  "Action list \<Rightarrow> Date \<Rightarrow> EthicalConstraint \<Rightarrow> SelfConstrainingEngine \<Rightarrow> SelfConstrainingEngine" where
  "revalidate [] now constraint s = s"
| "revalidate (action # rest) now constraint s =
     revalidate rest now constraint
       (if \<not> validateAgainstConstraint action constraint
        then snd (recordViolation s now action constraint) else s)"

text \<open>The internal action that \<open>applyConstraint\<close> builds, given the id drawn for it.\<close>

definition constraintAction :: "string \<Rightarrow> Date \<Rightarrow> EthicalConstraint \<Rightarrow> Action" where
  "constraintAction actionId now constraint =
     \<lparr> ac_id = actionId, ac_type = ''apply_constraint'',
       ac_description = ''Applying constraint: '' @ constraintTypeString (ec_type constraint),
       ac_targetObservers = None, ac_reversible = True,
       ac_metadata = [(''constraintId'', ec_id constraint)], ac_timestamp = now \<rparr>"

definition applyConstraint ::
  "SelfConstrainingEngine \<Rightarrow> Date \<Rightarrow> EthicalConstraint \<Rightarrow> SelfConstrainingEngine" where
  "applyConstraint s now constraint =
     (let s1 = revalidate (map snd (sce_actions s)) now constraint s;
          s2 = s1\<lparr> sce_constraints :=
                     AList.update (ec_id constraint) constraint (sce_constraints s1) \<rparr>;
          (actionId, s3) = uuidv4 s2;
          s4 = snd (validateAction s3 now (constraintAction actionId now constraint))
      in s4\<lparr> sce_events := sce_events s4 @ [constraint_added constraint] \<rparr>)"

definition registerRollback ::
  "SelfConstrainingEngine \<Rightarrow> RollbackProcedure \<Rightarrow> SelfConstrainingEngine" where
  "registerRollback s procedure =
     s\<lparr> sce_rollbackProcedures :=
          AList.update (rp_actionId procedure) procedure (sce_rollbackProcedures s) \<rparr>"

definition removeConstraint ::
  "SelfConstrainingEngine \<Rightarrow> string \<Rightarrow> bool \<times> SelfConstrainingEngine" where
  "removeConstraint s constraintId =
     (if map_of (sce_constraints s) constraintId \<noteq> None
      then (True,
            s\<lparr> sce_constraints := AList.delete constraintId (sce_constraints s),
               sce_events := sce_events s @ [constraint_removed constraintId] \<rparr>)
      else (False, s))"

record ComplianceSummary =
  cs_totalActions :: nat
  cs_totalViolations :: nat
  cs_totalConstraints :: nat
  cs_complianceRate :: real
  cs_criticalViolations :: nat
  cs_lastViolation :: "Violation option"

text \<open>
  The rate is computed in exact arithmetic; the source computes it in double precision,
  from the same two integers.
\<close>

definition getComplianceSummary :: "SelfConstrainingEngine \<Rightarrow> ComplianceSummary" where
  "getComplianceSummary s =
     (let totalActions = length (sce_actions s);
          totalViolations = length (sce_violations s);
          complianceRate =
            (if totalActions > 0
             then ((real totalActions - real totalViolations) / real totalActions) * 100
             else 100)
      in \<lparr> cs_totalActions = totalActions, cs_totalViolations = totalViolations,
           cs_totalConstraints = length (sce_constraints s),
           cs_complianceRate = complianceRate,
           cs_criticalViolations = length (filter (\<lambda>v. vi_severity v \<ge> 8) (sce_violations s)),
           cs_lastViolation =
             (if sce_violations s = [] then None else Some (last (sce_violations s))) \<rparr>)"

subsection \<open>The constructor and its four core constraints\<close>

definition keywordConstraint ::
  "string \<Rightarrow> ConstraintType \<Rightarrow> string \<Rightarrow> string list \<Rightarrow> int \<Rightarrow> Date \<Rightarrow> EthicalConstraint" where
  "keywordConstraint cid type description patterns severity now =
     \<lparr> ec_id = cid, ec_type = type, ec_description = description,
       ec_validator = (\<lambda>action. Some (\<not> matchesAny patterns (ac_type action))),
       ec_severity = severity, ec_createdAt = now \<rparr>"

definition observerProtectionConstraint :: "string \<Rightarrow> Date \<Rightarrow> EthicalConstraint" where
  "observerProtectionConstraint cid =
     keywordConstraint cid OBSERVER_PROTECTION
       ''Protects observers from deletion or optimization''
       [''delete'', ''erase'', ''optimize_away'', ''terminate''] 10"

definition nonCoercionConstraint :: "string \<Rightarrow> Date \<Rightarrow> EthicalConstraint" where
  "nonCoercionConstraint cid =
     keywordConstraint cid NON_COERCION ''Prevents coercion of belief or compliance''
       [''force'', ''compel'', ''coerce'', ''mandate_belief''] 8"

definition reversibilityConstraint :: "string \<Rightarrow> Date \<Rightarrow> EthicalConstraint" where
  "reversibilityConstraint cid now =
     \<lparr> ec_id = cid, ec_type = REVERSIBILITY,
       ec_description = ''Ensures all actions are reversible'',
       ec_validator = (\<lambda>action. Some (ac_reversible action = True)),
       ec_severity = 7, ec_createdAt = now \<rparr>"

definition nonTrivialityConstraint :: "string \<Rightarrow> Date \<Rightarrow> EthicalConstraint" where
  "nonTrivialityConstraint cid =
     keywordConstraint cid NON_TRIVIALITY ''Preserves meaningful distinctions''
       [''flatten'', ''uniformize'', ''collapse_meaning''] 6"

text \<open>One core constraint: its id is drawn, then it is applied.\<close>

definition applyCore ::
  "(string \<Rightarrow> Date \<Rightarrow> EthicalConstraint) \<Rightarrow> Date \<Rightarrow> SelfConstrainingEngine
     \<Rightarrow> SelfConstrainingEngine" where
  "applyCore mk now s = (let (cid, s1) = uuidv4 s in applyConstraint s1 now (mk cid now))"

definition initializeCoreConstraints ::
  "SelfConstrainingEngine \<Rightarrow> Date \<Rightarrow> SelfConstrainingEngine" where
  "initializeCoreConstraints s now =
     applyCore nonTrivialityConstraint now
       (applyCore reversibilityConstraint now
          (applyCore nonCoercionConstraint now
             (applyCore observerProtectionConstraint now s)))"

text \<open>
  \<open>new SelfConstrainingEngine(options)\<close>: \<open>autoRollbackOption\<close> is
  \<open>options.autoRollback\<close>, \<open>uuids\<close> the ids that \<open>uuidv4()\<close> will return.
\<close>

definition newSelfConstrainingEngine ::
  "bool option \<Rightarrow> (nat \<Rightarrow> string) \<Rightarrow> Date \<Rightarrow> SelfConstrainingEngine" where
  "newSelfConstrainingEngine autoRollbackOption uuids now =
     initializeCoreConstraints
       \<lparr> sce_constraints = [], sce_actions = [], sce_violations = [],
         sce_rollbackProcedures = [],
         sce_autoRollback = (case autoRollbackOption of None \<Rightarrow> True | Some b \<Rightarrow> b),
         sce_inFlight = [], sce_events = [], sce_uuids = uuids, sce_uuidCalls = 0 \<rparr>
       now"

subsection \<open>Notions used to state the properties of SelfConstrainingEngine\<close>

text \<open>The rollbacks that recording a violation of an action starts.\<close>

definition started :: "SelfConstrainingEngine \<Rightarrow> Action \<Rightarrow> (string \<times> Error option) list" where
  "started s action =
     (if sce_autoRollback s \<and> ac_reversible action
      then (case map_of (sce_rollbackProcedures s) (ac_id action) of
              None \<Rightarrow> []
            | Some p \<Rightarrow> [(ac_id action, rp_execute p ())])
      else [])"

text \<open>The actions of a list that a constraint rejects, in order.\<close>

definition failing :: "EthicalConstraint \<Rightarrow> Action list \<Rightarrow> Action list" where
  "failing c as = filter (\<lambda>a. \<not> validateAgainstConstraint a c) as"

text \<open>The constraints of a list that reject an action, in order.\<close>

definition rejecting :: "Action \<Rightarrow> EthicalConstraint list \<Rightarrow> EthicalConstraint list" where
  "rejecting a cs = filter (\<lambda>c. \<not> validateAgainstConstraint a c) cs"

text \<open>The constraints of the engine that reject an action: one violation is recorded for each.\<close>

definition failingConstraints :: "SelfConstrainingEngine \<Rightarrow> Action \<Rightarrow> EthicalConstraint list" where
  "failingConstraints s action =
     rejecting action (map snd (sce_constraints s))"

text \<open>
  The id that \<open>applyConstraint s now c\<close> draws for its internal action: the
  re-validation loop before it draws one id for each accepted action that \<open>c\<close> rejects.
\<close>

definition syntheticId :: "SelfConstrainingEngine \<Rightarrow> EthicalConstraint \<Rightarrow> string" where
  "syntheticId s c =
     sce_uuids s (sce_uuidCalls s + length (failing c (map snd (sce_actions s))))"

text \<open>The engine in the middle of \<open>applyConstraint\<close>, when the internal action is about to be validated.\<close>

definition afterInsertion ::
  "SelfConstrainingEngine \<Rightarrow> Date \<Rightarrow> EthicalConstraint \<Rightarrow> SelfConstrainingEngine" where
  "afterInsertion s now c =
     (revalidate (map snd (sce_actions s)) now c s)
       \<lparr> sce_constraints := AList.update (ec_id c) c (sce_constraints s),
         sce_uuidCalls := Suc (sce_uuidCalls s + length (failing c (map snd (sce_actions s)))) \<rparr>"

text \<open>
  The fixed-point self-check: the constraints of the rule set after the insertion of
  \<open>c\<close> that reject the internal action. The check passes when there is none.
\<close>

definition selfCheckFailures ::
  "SelfConstrainingEngine \<Rightarrow> Date \<Rightarrow> EthicalConstraint \<Rightarrow> EthicalConstraint list" where
  "selfCheckFailures s now c =
     rejecting (constraintAction (syntheticId s c) now c)
       (map snd (AList.update (ec_id c) c (sce_constraints s)))"

text \<open>
  The accepted-action store as a \<open>Map\<close> filled by \<open>this.actions.set(action.id, action)\<close>:
  keys are distinct and each is the id of its action.
\<close>

definition keyedById :: "SelfConstrainingEngine \<Rightarrow> bool" where
  "keyedById s =
     (distinct (map fst (sce_actions s))
      \<and> map fst (sce_actions s) = map (\<lambda>p. ac_id (snd p)) (sce_actions s))"

text \<open>
  Applying \<open>c\<close> starts a rollback of the accepted action \<open>a\<close> that will succeed:
  \<open>a\<close> violates \<open>c\<close>, the engine is configured for auto-rollback, \<open>a\<close> is
  reversible, and a procedure whose \<open>execute\<close> resolves is registered for its id.
\<close>

definition rolledBackBy :: "SelfConstrainingEngine \<Rightarrow> EthicalConstraint \<Rightarrow> Action \<Rightarrow> bool" where
  "rolledBackBy s c a =
     (\<not> validateAgainstConstraint a c \<and> sce_autoRollback s \<and> ac_reversible a
      \<and> (case map_of (sce_rollbackProcedures s) (ac_id a) of
            None \<Rightarrow> False
          | Some p \<Rightarrow> rp_execute p () = None))"

text \<open>An association list of actions in which each key is the id of its action.\<close>

definition keyed :: "(string \<times> Action) list \<Rightarrow> bool" where
  "keyed al = (distinct (map fst al) \<and> map fst al = map (\<lambda>p. ac_id (snd p)) al)"

text \<open>
  The violation that \<open>recordViolation\<close> builds for an action and a constraint when
  the id it draws is the \<open>n\<close>-th of the engine.
\<close>

definition violationOf ::
  "SelfConstrainingEngine \<Rightarrow> Date \<Rightarrow> Action \<Rightarrow> EthicalConstraint \<Rightarrow> nat \<Rightarrow> Violation" where
  "violationOf s now action constraint n =
     \<lparr> vi_id = sce_uuids s n, vi_action = action, vi_constraint = constraint,
       vi_timestamp = now, vi_severity = calculateSeverity action constraint,
       vi_autoRollback = (sce_autoRollback s \<and> ac_reversible action) \<rparr>"

text \<open>
  The violations that the re-validation loop of \<open>applyConstraint s now c\<close> records:
  one for each accepted action that \<open>c\<close> rejects, in the order of the store.
\<close>

definition revalidationViolations ::
  "SelfConstrainingEngine \<Rightarrow> Date \<Rightarrow> EthicalConstraint \<Rightarrow> Violation list" where
  "revalidationViolations s now c =
     map (\<lambda>(n, a). violationOf s now a c n)
       (enumerate (sce_uuidCalls s) (failing c (map snd (sce_actions s))))"

text \<open>
  The violations that the self-check of \<open>applyConstraint s now c\<close> records: one for
  each constraint that rejects the internal action, in the order of the rule set.
\<close>

definition selfCheckViolations ::
  "SelfConstrainingEngine \<Rightarrow> Date \<Rightarrow> EthicalConstraint \<Rightarrow> Violation list" where
  "selfCheckViolations s now c =
     map (\<lambda>(n, c'). violationOf s now (constraintAction (syntheticId s c) now c) c' n)
       (enumerate (Suc (sce_uuidCalls s + length (failing c (map snd (sce_actions s)))))
          (selfCheckFailures s now c))"

subsection \<open>Example engines\<close>

text \<open>
  Example engines. The ids that \<open>uuidv4()\<close> returns are \<open>uuid-\<close>, \<open>uuid-x\<close>,
  \<open>uuid-xx\<close>, ... in call order.
\<close>

definition exampleUuids :: "nat \<Rightarrow> string" where
  "exampleUuids n = ''uuid-'' @ replicate n (CHR ''x'')"

text \<open>\<open>new SelfConstrainingEngine()\<close>: auto-rollback is on by default.\<close>

definition freshEngine :: SelfConstrainingEngine where
  "freshEngine = newSelfConstrainingEngine None exampleUuids 0"

text \<open>A reversible action that the four core constraints accept.\<close>

definition spyAction :: Action where
  "spyAction =
     \<lparr> ac_id = ''a1'', ac_type = ''spy_on_thoughts'', ac_description = ''Read an observer'',
       ac_targetObservers = None, ac_reversible = True, ac_metadata = [], ac_timestamp = 10 \<rparr>"

text \<open>A rollback procedure for it, whose \<open>execute\<close> resolves.\<close>

definition spyRollback :: RollbackProcedure where
  "spyRollback = \<lparr> rp_actionId = ''a1'', rp_execute = (\<lambda>_. None), rp_metadata = [] \<rparr>"

text \<open>The fresh engine after the action was accepted and its rollback procedure registered.\<close>

definition spyEngine :: SelfConstrainingEngine where
  "spyEngine = registerRollback (snd (validateAction freshEngine 10 spyAction)) spyRollback"

text \<open>A custom constraint that rejects action types containing \<open>spy\<close>.\<close>

definition noSpyConstraint :: EthicalConstraint where
  "noSpyConstraint = keywordConstraint ''no-spy'' OBSERVER_PROTECTION ''No spying'' [''spy''] 5 2"

text \<open>An irreversible action that each of the four core constraints rejects.\<close>

definition badAction :: Action where
  "badAction =
     \<lparr> ac_id = ''bad-1'', ac_type = ''delete_force_flatten'',
       ac_description = ''Delete, coerce and flatten'', ac_targetObservers = None,
       ac_reversible = False, ac_metadata = [], ac_timestamp = 10 \<rparr>"

text \<open>The fresh engine after that action was submitted, and rejected, twice.\<close>

definition overdrawnEngine :: SelfConstrainingEngine where
  "overdrawnEngine =
     snd (validateAction (snd (validateAction freshEngine 10 badAction)) 20 badAction)"

section \<open>ReversibilityEngine (src/src/reversibility/ReversibilityEngine.ts)\<close>

text \<open>
  How one call of a unit's \<open>execute\<close>, raced against the timer of
  \<open>executeWithTimeout\<close>, ends: the promise resolves with a result, it rejects (or the
  call throws) with an error, or the timer fires first. Which side wins the race is part
  of the outcome; \<open>timeoutMs\<close> itself is not modelled.
\<close>

datatype ExecOutcome = Resolves string | Rejects Error | TimesOut

text \<open>
  How an awaited promise ends: it resolves with a value, it rejects with an error (an
  \<open>async\<close> method that throws rejects its promise), or it never settles, and then the
  caller that awaits it never goes on.
\<close>

datatype 'a Settled = Resolved 'a | Rejected Error | NeverSettles

text \<open>
  A unit of work. \<open>ra_execute u k\<close> is the outcome of the \<open>k\<close>-th attempt to execute
  it; \<open>ra_rollback u n\<close> is how the promise of the call of \<open>rollback\<close> that follows
  \<open>n\<close> earlier calls ends (the source awaits it with no timer), and
  \<open>ra_rollbackCalls\<close>, which is not a field of the source, counts these calls.
\<close>

record ReversibleAction =
  ra_id :: string
  ra_name :: string
  ra_execute :: "nat \<Rightarrow> ExecOutcome"
  ra_rollback :: "nat \<Rightarrow> unit Settled"
  ra_metadata :: Metadata
  ra_timestamp :: Date
  ra_completed :: bool
  ra_rolledBack :: bool
  ra_rollbackCalls :: nat

text \<open>\<open>Omit<ReversibleAction, 'id' | 'timestamp' | 'completed' | 'rolledBack'>\<close>\<close>

record UnitOfWork =
  uw_name :: string
  uw_execute :: "nat \<Rightarrow> ExecOutcome"
  uw_rollback :: "nat \<Rightarrow> unit Settled"
  uw_metadata :: Metadata

record ActionSnapshot =
  sn_actionId :: string
  sn_beforeState :: string
  sn_afterState :: "string option"
  sn_timestamp :: Date

text \<open>
  The optional callbacks. \<open>onError\<close> returns nothing: applied to the error it gives
  \<open>None\<close> when it returns normally and \<open>Some e\<close> when it throws \<open>e\<close>; its
  calls are logged (see \<open>onError_called\<close> below). \<open>validateBeforeRollback\<close>
  gives \<open>Inr b\<close> when it returns \<open>b\<close> and \<open>Inl e\<close> when it throws \<open>e\<close>.
\<close>

record RollbackOptions =
  ro_maxAttempts :: "int option"
  ro_timeoutMs :: "int option"
  ro_onError :: "(Error \<Rightarrow> Error option) option"
  ro_validateBeforeRollback :: "(ActionSnapshot \<Rightarrow> Error + bool) option"

record RollbackRecord =
  rr_id :: string
  rr_actionId :: string
  rr_actionName :: string
  rr_timestamp :: Date
  rr_success :: bool
  rr_error :: "Error option"

record ExecutionResult =
  er_success :: bool
  er_actionId :: string
  er_result :: "string option"
  er_error :: "Error option"
  er_attempts :: int

text \<open>
  The events emitted, and \<open>onError_called\<close>, which is not emitted: it logs a call of
  the \<open>onError\<close> callback.
\<close>

datatype REEvent =
    action_completed string string
  | action_error string Error nat
  | onError_called Error
  | snapshot_created ActionSnapshot
  | snapshot_updated ActionSnapshot
  | rollback_started string
  | rollback_completed RollbackRecord
  | re_rollback_failed RollbackRecord
  | cleanup_completed nat Date

text \<open>
  \<open>re_uuids\<close> and \<open>re_uuidCalls\<close> are as in the constraint engine.
  \<open>re_appended\<close>, which is not a field of the source, counts the records ever pushed
  to \<open>rollbackHistory\<close> (the history itself is bounded and evicts).
\<close>

record ReversibilityEngine =
  re_actions :: "(string \<times> ReversibleAction) list"
  re_snapshots :: "(string \<times> ActionSnapshot) list"
  re_rollbackHistory :: "RollbackRecord list"
  re_maxHistorySize :: int
  re_events :: "REEvent list"
  re_uuids :: "nat \<Rightarrow> string"
  re_uuidCalls :: nat
  re_appended :: nat

definition newReversibilityEngine :: "int option \<Rightarrow> (nat \<Rightarrow> string) \<Rightarrow> ReversibilityEngine" where
  "newReversibilityEngine maxHistorySizeOption uuids =
     \<lparr> re_actions = [], re_snapshots = [], re_rollbackHistory = [],
       re_maxHistorySize = (case maxHistorySizeOption of None \<Rightarrow> 1000 | Some n \<Rightarrow> n),
       re_events = [], re_uuids = uuids, re_uuidCalls = 0, re_appended = 0 \<rparr>"

definition re_uuidv4 :: "ReversibilityEngine \<Rightarrow> string \<times> ReversibilityEngine" where
  "re_uuidv4 s = (re_uuids s (re_uuidCalls s), s\<lparr> re_uuidCalls := Suc (re_uuidCalls s) \<rparr>)"

definition executeWithTimeout :: "(nat \<Rightarrow> ExecOutcome) \<Rightarrow> nat \<Rightarrow> Error + string" where
  "executeWithTimeout fn attempt =
     (case fn attempt of
        Resolves result \<Rightarrow> Inr result
      | Rejects error \<Rightarrow> Inl error
      | TimesOut \<Rightarrow> Inl (Error ''Operation timeout''))"

definition createSnapshot ::
  "ReversibilityEngine \<Rightarrow> Date \<Rightarrow> string \<Rightarrow> string \<Rightarrow> ReversibilityEngine" where
  "createSnapshot s now actionId beforeState =
     (let snapshot = \<lparr> sn_actionId = actionId, sn_beforeState = beforeState,
                       sn_afterState = None, sn_timestamp = now \<rparr>
      in s\<lparr> re_snapshots := AList.update actionId snapshot (re_snapshots s),
            re_events := re_events s @ [snapshot_created snapshot] \<rparr>)"

definition addRollbackRecord :: "ReversibilityEngine \<Rightarrow> RollbackRecord \<Rightarrow> ReversibilityEngine" where
  "addRollbackRecord s record =
     (let history = re_rollbackHistory s @ [record]
      in s\<lparr> re_rollbackHistory :=
              (if int (length history) > re_maxHistorySize s then tl history else history),
            re_appended := Suc (re_appended s) \<rparr>)"

text \<open>
  The test \<open>options.validateBeforeRollback && snapshot && !validateBeforeRollback(snapshot)\<close>
  of \<open>rollbackAction\<close>: \<open>Inr True\<close> when the rollback may go on (no callback, no
  snapshot, or the callback accepts the snapshot), \<open>Inr False\<close> when the callback rejects
  the snapshot, \<open>Inl e\<close> when the callback throws \<open>e\<close>.
\<close>

definition snapshotValidation ::
  "ReversibilityEngine \<Rightarrow> string \<Rightarrow> (ActionSnapshot \<Rightarrow> Error + bool) option \<Rightarrow> Error + bool" where
  "snapshotValidation s actionId validateBeforeRollback =
     (case validateBeforeRollback of
        None \<Rightarrow> Inr True
      | Some validate \<Rightarrow>
          (case map_of (re_snapshots s) actionId of
             None \<Rightarrow> Inr True
           | Some snapshot \<Rightarrow> validate snapshot))"

text \<open>
  \<open>rollbackAction\<close>, with the way its promise ends. The unit is an object shared with
  the registry, so assigning to its fields changes the registry's entry in place
  (\<open>AList.map_entry\<close>). The validation callback is called before the \<open>try\<close>, so
  its exception rejects the promise; \<open>rollback\<close> is awaited inside the \<open>try\<close>, so
  its rejection is caught, and when it never settles neither does \<open>rollbackAction\<close>.
\<close>

definition re_rollbackAction ::
  "ReversibilityEngine \<Rightarrow> Date \<Rightarrow> string \<Rightarrow> (ActionSnapshot \<Rightarrow> Error + bool) option
     \<Rightarrow> bool Settled \<times> ReversibilityEngine" where
  "re_rollbackAction s now actionId validateBeforeRollback =
     (case map_of (re_actions s) actionId of
        None \<Rightarrow> (Resolved False, s)
      | Some action \<Rightarrow>
          if ra_rolledBack action then (Resolved False, s)
          else
            (case snapshotValidation s actionId validateBeforeRollback of
               Inl thrown \<Rightarrow> (Rejected thrown, s)
             | Inr valid \<Rightarrow>
                 if \<not> valid then (Resolved False, s)
                 else
                   (let s1 = s\<lparr> re_events := re_events s @ [rollback_started actionId] \<rparr>;
                        outcome = ra_rollback action (ra_rollbackCalls action);
                        s2 = s1\<lparr> re_actions :=
                                   AList.map_entry actionId
                                     (\<lambda>a. a\<lparr> ra_rollbackCalls := Suc (ra_rollbackCalls a) \<rparr>)
                                     (re_actions s1) \<rparr>
                    in case outcome of
                         Resolved _ \<Rightarrow>
                           (let s3 = s2\<lparr> re_actions :=
                                           AList.map_entry actionId
                                             (\<lambda>a. a\<lparr> ra_rolledBack := True,
                                                      ra_completed := False \<rparr>)
                                             (re_actions s2) \<rparr>;
                                (rid, s4) = re_uuidv4 s3;
                                record = \<lparr> rr_id = rid, rr_actionId = actionId,
                                           rr_actionName = ra_name action, rr_timestamp = now,
                                           rr_success = True, rr_error = None \<rparr>;
                                s5 = addRollbackRecord s4 record
                            in (Resolved True,
                                s5\<lparr> re_events := re_events s5 @ [rollback_completed record] \<rparr>))
                       | Rejected error \<Rightarrow>
                           (let (rid, s3) = re_uuidv4 s2;
                                record = \<lparr> rr_id = rid, rr_actionId = actionId,
                                           rr_actionName = ra_name action, rr_timestamp = now,
                                           rr_success = False, rr_error = Some error \<rparr>;
                                s4 = addRollbackRecord s3 record
                            in (Resolved False,
                                s4\<lparr> re_events := re_events s4 @ [re_rollback_failed record] \<rparr>))
                       | NeverSettles \<Rightarrow> (NeverSettles, s2))))"

text \<open>
  \<open>if (onError) onError(lastError)\<close>: the exception of the callback, if it throws, and
  the state with the call logged.
\<close>

definition callOnError ::
  "ReversibilityEngine \<Rightarrow> RollbackOptions \<Rightarrow> Error \<Rightarrow> Error option \<times> ReversibilityEngine" where
  "callOnError s options error =
     (case ro_onError options of
        None \<Rightarrow> (None, s)
      | Some onError \<Rightarrow> (onError error, s\<lparr> re_events := re_events s @ [onError_called error] \<rparr>))"

text \<open>
  The loop \<open>for (let attempt = 1; attempt <= maxAttempts; attempt++)\<close> of
  \<open>executeWithRollback\<close>, from a given \<open>attempt\<close> on. When it ends normally it gives
  the result and the number of the attempt that succeeded, if one did, and
  \<open>lastError\<close>. The \<open>catch\<close> block calls \<open>onError\<close> and awaits
  \<open>rollbackAction\<close> unguarded: an exception of \<open>onError\<close> or of the validation
  callback leaves the loop and rejects the promise of \<open>executeWithRollback\<close>, and a
  \<open>rollback\<close> that never settles keeps the loop waiting for ever.
\<close>

function attemptLoop ::
  "ReversibilityEngine \<Rightarrow> Date \<Rightarrow> string \<Rightarrow> (nat \<Rightarrow> ExecOutcome) \<Rightarrow> RollbackOptions \<Rightarrow> int
     \<Rightarrow> nat \<Rightarrow> Error option
     \<Rightarrow> ((string \<times> nat) option \<times> Error option) Settled \<times> ReversibilityEngine" where
  "attemptLoop s now actionId execute options maxAttempts attempt lastError =
     (if int attempt \<le> maxAttempts then
        (case executeWithTimeout execute attempt of
           Inr result \<Rightarrow>
             (Resolved (Some (result, attempt), lastError),
              s\<lparr> re_actions :=
                    AList.map_entry actionId (\<lambda>a. a\<lparr> ra_completed := True \<rparr>) (re_actions s),
                 re_events := re_events s @ [action_completed actionId result] \<rparr>)
         | Inl error \<Rightarrow>
             (let s1 = s\<lparr> re_events := re_events s @ [action_error actionId error attempt] \<rparr>;
                  s2 = snd (callOnError s1 options error)
              in case fst (callOnError s1 options error) of
                   Some thrown \<Rightarrow> (Rejected thrown, s2)
                 | None \<Rightarrow>
                     if int attempt < maxAttempts then
                       (let s3 = snd (re_rollbackAction s2 now actionId
                                        (ro_validateBeforeRollback options))
                        in case fst (re_rollbackAction s2 now actionId
                                       (ro_validateBeforeRollback options)) of
                             Resolved _ \<Rightarrow>
                               attemptLoop s3 now actionId execute options maxAttempts
                                 (Suc attempt) (Some error)
                           | Rejected thrown \<Rightarrow> (Rejected thrown, s3)
                           | NeverSettles \<Rightarrow> (NeverSettles, s3))
                     else attemptLoop s2 now actionId execute options maxAttempts
                            (Suc attempt) (Some error)))
      else (Resolved (None, lastError), s))"
  by pat_completeness auto
termination
  by (relation "measure (\<lambda>(s, now, actionId, execute, options, maxAttempts, attempt, lastError).
        nat (maxAttempts + 1 - int attempt))") auto

declare attemptLoop.simps [simp del]

text \<open>The default of the destructuring \<open>maxAttempts = 3\<close>.\<close>

definition maxAttemptsOf :: "RollbackOptions \<Rightarrow> int" where
  "maxAttemptsOf options = (case ro_maxAttempts options of None \<Rightarrow> 3 | Some m \<Rightarrow> m)"

definition executeWithRollback ::
  "ReversibilityEngine \<Rightarrow> Date \<Rightarrow> UnitOfWork \<Rightarrow> RollbackOptions
     \<Rightarrow> ExecutionResult Settled \<times> ReversibilityEngine" where
  "executeWithRollback s now action options =
     (let (actionId, s1) = re_uuidv4 s;
          reversibleAction =
            \<lparr> ra_id = actionId, ra_name = uw_name action, ra_execute = uw_execute action,
              ra_rollback = uw_rollback action, ra_metadata = uw_metadata action,
              ra_timestamp = now, ra_completed = False, ra_rolledBack = False,
              ra_rollbackCalls = 0 \<rparr>;
          s2 = s1\<lparr> re_actions := AList.update actionId reversibleAction (re_actions s1) \<rparr>;
          maxAttempts = maxAttemptsOf options;
          loop = attemptLoop s2 now actionId (ra_execute reversibleAction) options maxAttempts
                   1 None;
          s3 = snd loop
      in case fst loop of
           Resolved (Some (result, attempt), lastError) \<Rightarrow>
             (Resolved \<lparr> er_success = True, er_actionId = actionId, er_result = Some result,
                         er_error = None, er_attempts = int attempt \<rparr>, s3)
         | Resolved (None, lastError) \<Rightarrow>
             (let final = re_rollbackAction s3 now actionId (ro_validateBeforeRollback options)
              in case fst final of
                   Resolved _ \<Rightarrow>
                     (Resolved \<lparr> er_success = False, er_actionId = actionId, er_result = None,
                                 er_error = Some (case lastError of
                                                    None \<Rightarrow> Error ''Unknown error''
                                                  | Some e \<Rightarrow> e),
                                 er_attempts = maxAttempts \<rparr>, snd final)
                 | Rejected thrown \<Rightarrow> (Rejected thrown, snd final)
                 | NeverSettles \<Rightarrow> (NeverSettles, snd final))
         | Rejected thrown \<Rightarrow> (Rejected thrown, s3)
         | NeverSettles \<Rightarrow> (NeverSettles, s3))"

definition getAction :: "ReversibilityEngine \<Rightarrow> string \<Rightarrow> ReversibleAction option" where
  "getAction s actionId = map_of (re_actions s) actionId"

text \<open>\<open>cleanup\<close>: the one method that removes units from the registry.\<close>

definition cleanup :: "ReversibilityEngine \<Rightarrow> Date \<Rightarrow> nat \<times> ReversibilityEngine" where
  "cleanup s olderThan =
     (let old = (\<lambda>p. ra_timestamp (snd p) < olderThan
                       \<and> (ra_completed (snd p) \<or> ra_rolledBack (snd p)));
          removed = map fst (filter old (re_actions s));
          cleaned = length removed
      in (cleaned,
          s\<lparr> re_actions := filter (\<lambda>p. \<not> old p) (re_actions s),
             re_snapshots := filter (\<lambda>p. fst p \<notin> set removed) (re_snapshots s),
             re_events := re_events s @ [cleanup_completed cleaned olderThan] \<rparr>))"

subsection \<open>Notions used to state the properties of ReversibilityEngine\<close>

text \<open>The record that a rollback pass of a unit writes when \<open>rollback\<close> settles.\<close>

definition rollbackRecord ::
  "ReversibilityEngine \<Rightarrow> Date \<Rightarrow> string \<Rightarrow> ReversibleAction \<Rightarrow> RollbackRecord" where
  "rollbackRecord s now actionId u =
     \<lparr> rr_id = re_uuids s (re_uuidCalls s), rr_actionId = actionId, rr_actionName = ra_name u,
       rr_timestamp = now,
       rr_success = (ra_rollback u (ra_rollbackCalls u) = Resolved ()),
       rr_error = (case ra_rollback u (ra_rollbackCalls u) of
                     Rejected e \<Rightarrow> Some e | _ \<Rightarrow> None) \<rparr>"

text \<open>
  What the retry loop maintains for the unit \<open>uid\<close> with rollback operation \<open>rb\<close>,
  from a count \<open>base\<close> of records pushed: the unit is registered with that operation;
  if it is rolled back a record was pushed; and once a record was pushed, a history that
  may hold a record ends with a record of the unit.
\<close>

definition loopInv ::
  "nat \<Rightarrow> string \<Rightarrow> (nat \<Rightarrow> unit Settled) \<Rightarrow> ReversibilityEngine \<Rightarrow> bool" where
  "loopInv base uid rb s =
     ((case map_of (re_actions s) uid of
         None \<Rightarrow> False
       | Some u \<Rightarrow> ra_rollback u = rb \<and> (\<not> ra_rolledBack u \<or> base < re_appended s))
      \<and> base \<le> re_appended s
      \<and> (re_appended s \<le> base \<or> re_maxHistorySize s < 1
          \<or> (re_rollbackHistory s \<noteq> [] \<and> rr_actionId (last (re_rollbackHistory s)) = uid)))"

subsection \<open>Example units\<close>

text \<open>A unit whose \<open>execute\<close> and \<open>rollback\<close> always succeed.\<close>

definition okWork :: UnitOfWork where
  "okWork =
     \<lparr> uw_name = ''set-counter'', uw_execute = (\<lambda>k. Resolves ''42''),
       uw_rollback = (\<lambda>n. Resolved ()), uw_metadata = [] \<rparr>"

text \<open>
  A unit whose \<open>execute\<close> always fails (the second attempt by timeout) and whose
  \<open>rollback\<close> fails too.
\<close>

definition flakyWork :: UnitOfWork where
  "flakyWork =
     \<lparr> uw_name = ''flaky'',
       uw_execute = (\<lambda>k. if k = 2 then TimesOut else Rejects (Error ''boom'')),
       uw_rollback = (\<lambda>n. Rejected (Error ''stuck'')), uw_metadata = [] \<rparr>"

text \<open>A unit whose \<open>execute\<close> always fails and whose \<open>rollback\<close> never settles.\<close>

definition hangingWork :: UnitOfWork where
  "hangingWork =
     \<lparr> uw_name = ''hanging'', uw_execute = (\<lambda>k. Rejects (Error ''boom'')),
       uw_rollback = (\<lambda>n. NeverSettles), uw_metadata = [] \<rparr>"

text \<open>\<open>options = {}\<close>\<close>

definition defaultOptions :: RollbackOptions where
  "defaultOptions =
     \<lparr> ro_maxAttempts = None, ro_timeoutMs = None, ro_onError = None,
       ro_validateBeforeRollback = None \<rparr>"

text \<open>\<open>{ maxAttempts: 2, onError: e => console.log(e) }\<close>: the callback returns normally.\<close>

definition twoAttempts :: RollbackOptions where
  "twoAttempts =
     \<lparr> ro_maxAttempts = Some 2, ro_timeoutMs = None, ro_onError = Some (\<lambda>e. None),
       ro_validateBeforeRollback = None \<rparr>"

text \<open>\<open>{ onError: e => { throw new Error('handler failed') } }\<close>\<close>

definition throwingOptions :: RollbackOptions where
  "throwingOptions =
     \<lparr> ro_maxAttempts = None, ro_timeoutMs = None,
       ro_onError = Some (\<lambda>e. Some (Error ''handler failed'')),
       ro_validateBeforeRollback = None \<rparr>"

text \<open>A new engine after \<open>executeWithRollback\<close> of the first unit, with the ids of the example engines above.\<close>

definition completedEngine :: ReversibilityEngine where
  "completedEngine =
     snd (executeWithRollback (newReversibilityEngine None exampleUuids) 10 okWork defaultOptions)"

section \<open>Properties of ObserverProtector\<close>

lemma init_fundamental: "fundamentalIntact (initializeObserverRights level)"
  by (simp add: initializeObserverRights_def fundamentalIntact_def Let_def split: option.splits)


lemma dropFundamental_keys:
  "dropFundamental u RightToExist \<noteq> Some JFalse"
  "dropFundamental u RightNotToBeOptimizedAway \<noteq> Some JFalse"
  "dropFundamental u RightToContinuity \<noteq> Some JFalse"
  by (simp_all add: dropFundamental_def fundamentalRights_def)

lemma dropFundamental_undefined:
  "(dropFundamental u k = Some JUndefined) = (u k = Some JUndefined)"
  by (simp add: dropFundamental_def fundamentalRights_def)

lemma dropFundamental_true:
  "(dropFundamental u k = Some JTrue) = (u k = Some JTrue)"
  by (simp add: dropFundamental_def fundamentalRights_def)


lemma merge_fundamental:
  assumes "fundamentalIntact r"
    and "u RightToExist \<noteq> Some JUndefined" and "u RightNotToBeOptimizedAway \<noteq> Some JUndefined"
    and "u RightToContinuity \<noteq> Some JUndefined"
  shows "fundamentalIntact (mergeRights r (dropFundamental u))"
proof -
  have v: "\<And>k. k \<in> {RightToExist, RightNotToBeOptimizedAway, RightToContinuity} \<Longrightarrow>
      dropFundamental u k = None \<or> dropFundamental u k = Some JTrue"
  proof -
    fix k assume k: "k \<in> {RightToExist, RightNotToBeOptimizedAway, RightToContinuity}"
    show "dropFundamental u k = None \<or> dropFundamental u k = Some JTrue"
    proof (cases "dropFundamental u k")
      case None
      then show ?thesis by simp
    next
      case (Some x)
      with k dropFundamental_keys [of u] dropFundamental_undefined [of u k] assms(2-4)
      show ?thesis by (cases x) auto
    qed
  qed
  from v [of RightToExist] v [of RightNotToBeOptimizedAway] v [of RightToContinuity] assms(1)
  show ?thesis
    by (auto simp: fundamentalIntact_def mergeRights_def pick_def)
qed

lemma checkAction_frame:
  "op_rights (snd (checkAction s a ids)) = op_rights s"
  "op_observers (snd (checkAction s a ids)) = op_observers s"
  "op_narratives (snd (checkAction s a ids)) = op_narratives s"
  "op_protectionLayers (snd (checkAction s a ids)) = op_protectionLayers s"
  by (simp_all add: checkAction_def Let_def)

lemma addNarrativeEntry_frame:
  "op_rights (snd (addNarrativeEntry s t i e)) = op_rights s"
  "op_observers (snd (addNarrativeEntry s t i e)) = op_observers s"
  by (simp_all add: addNarrativeEntry_def split: option.splits)

lemma deregister_rights:
  "op_rights (snd (deregisterObserver s t i e)) = op_rights s
   \<or> op_rights (snd (deregisterObserver s t i e)) = (op_rights s)(i := None)"
  by (auto simp: deregisterObserver_def Let_def split_beta checkAction_frame addNarrativeEntry_frame)






text \<open>
  The loop of \<open>updateObserverRights\<close> tests \<open>updates[key] === false\<close> only. A
  fundamental key that is present with the value \<open>undefined\<close> is kept, and the spread
  stores it: the right is then \<open>undefined\<close>, which is neither \<open>false\<close> nor
  \<open>true\<close>.
\<close>

lemma undefined_update_is_stored:
  "op_rights (opCalls (newObserverProtector ''l1'' ''l2'' ''l3'' ''v'' 0) undefinedCalls) ''obs-1''
     = Some \<lparr> rightToExist = JUndefined, rightToNarrative = JTrue, rightToIgnorance = JTrue,
              rightToRejection = JTrue, rightToMeaning = JTrue,
              rightNotToBeOptimizedAway = JTrue, rightToContinuity = JTrue,
              rightToPrivacy = JTrue, rightToSelfDetermination = JTrue \<rparr>"
  by (simp add: opCalls_def undefinedCalls_def newObserverProtector_def addProtectionLayer_def
      emptyObserverProtector_def registerObserver_def updateObserverRights_def Let_def
      initializeObserverRights_def mergeRights_def pick_def dropFundamental_def
      fundamentalRights_def)

text \<open>
  When no call passes \<open>undefined\<close> for a fundamental key, the three fundamental rights
  of every stored rights set stay \<open>true\<close>.
\<close>

lemma rightsHeld_opCall: "rightsHeld s \<Longrightarrow> passesNoUndefined c \<Longrightarrow> rightsHeld (opCall s c)"
proof (cases c)
  case (RegisterObserver uid now config)
  then show "rightsHeld s \<Longrightarrow> rightsHeld (opCall s c)"
    by (auto simp: rightsHeld_def registerObserver_def Let_def init_fundamental)
next
  case (CheckAction a ids)
  then show "rightsHeld s \<Longrightarrow> rightsHeld (opCall s c)"
    by (simp add: rightsHeld_def checkAction_frame)
next
  case (AddProtectionLayer l)
  then show "rightsHeld s \<Longrightarrow> rightsHeld (opCall s c)"
    by (simp add: rightsHeld_def addProtectionLayer_def)
next
  case (UpdateObserverRights i u)
  then show "rightsHeld s \<Longrightarrow> passesNoUndefined c \<Longrightarrow> rightsHeld (opCall s c)"
    by (auto simp: rightsHeld_def updateObserverRights_def Let_def merge_fundamental
        split: option.splits)
next
  case (AddNarrativeEntry t i e)
  then show "rightsHeld s \<Longrightarrow> rightsHeld (opCall s c)"
    by (simp add: rightsHeld_def addNarrativeEntry_frame)
next
  case (DeregisterObserver t i e)
  assume inv: "rightsHeld s"
  from deregister_rights [of s t i e] DeregisterObserver inv
  show "rightsHeld (opCall s c)"
    by (auto simp: rightsHeld_def split: if_splits)
qed

lemma rightsHeld_fold:
  "rightsHeld s \<Longrightarrow> list_all passesNoUndefined calls \<Longrightarrow>
   rightsHeld (fold (\<lambda>c s'. opCall s' c) calls s)"
  by (induction calls arbitrary: s) (simp_all add: rightsHeld_opCall)

lemma fundamental_rights_stay_true:
  assumes "list_all passesNoUndefined calls"
    and "op_rights (opCalls (newObserverProtector l1 l2 l3 vid t0) calls) observerId = Some r"
  shows "fundamentalIntact r"
proof -
  have "rightsHeld (newObserverProtector l1 l2 l3 vid t0)"
    by (simp add: rightsHeld_def newObserverProtector_def addProtectionLayer_def
        emptyObserverProtector_def)
  from rightsHeld_fold [OF this assms(1)] assms(2) show ?thesis
    by (simp add: rightsHeld_def opCalls_def)
qed

lemma checkObservers_unknown:
  "\<forall>i \<in> set ids. op_observers s i = None \<Longrightarrow>
   checkObservers s chain a ids acc
     = acc\<lparr> ca_warnings := ca_warnings acc @ map (\<lambda>i. ''Observer '' @ i @ '' not found'') ids \<rparr>"
  by (induction ids arbitrary: acc) simp_all

text \<open>
  Claim C10. When no id of the list names a registered observer (the empty list
  included), \<open>checkAction\<close> returns \<open>allowed = true\<close>, no violation and one warning
  per id, in order; the state, and so the violation log, is unchanged, and no layer is
  applied.
\<close>

theorem checkAction_unknown_observers:
  assumes "\<forall>i \<in> set ids. op_observers s i = None"
  shows "checkAction s action ids
           = (\<lparr> pr_allowed = True, pr_violations = [],
                pr_warnings = map (\<lambda>i. ''Observer '' @ i @ '' not found'') ids \<rparr>, s)
         \<and> op_violations (snd (checkAction s action ids)) = op_violations s
         \<and> checkAction_invoked s action ids = []"
  using assms
  by (simp add: checkAction_def checkAction_invoked_def checkActionRun_def Let_def
      checkObservers_unknown)

theorem checkAction_unknown_observers_witness:
  "op_observers guardedProtector ''ghost'' = None
   \<and> op_observers guardedProtector ''nobody'' = None
   \<and> checkAction guardedProtector ''delete_observer'' [''ghost'', ''nobody'']
       = (\<lparr> pr_allowed = True, pr_violations = [],
            pr_warnings = [''Observer ghost not found'', ''Observer nobody not found''] \<rparr>,
          guardedProtector)"
proof -
  have h: "\<forall>i \<in> set [''ghost'', ''nobody'']. op_observers guardedProtector i = None"
    by (simp add: guardedProtector_def registerObserver_def addProtectionLayer_def
        newObserverProtector_def emptyObserverProtector_def Let_def)
  from checkAction_unknown_observers [OF h, of "''delete_observer''"] h show ?thesis by simp
qed


lemma evaluatedLayers_prefix:
  "evaluatedLayers oid a chain @ drop 1 (dropWhile (\<lambda>l. \<not> blocks l oid a) chain) = chain"
  by (simp add: evaluatedLayers_def)

lemma evaluatedLayers_unblocked:
  "\<forall>l \<in> set chain. \<not> blocks l oid a \<Longrightarrow> evaluatedLayers oid a chain = chain"
  by (induction chain) (simp_all add: evaluatedLayers_def)

lemma evaluatedLayers_blocked:
  assumes "\<forall>l \<in> set before. \<not> blocks l oid a" and "blocks l oid a"
  shows "evaluatedLayers oid a (before @ l # after) = before @ [l]"
  using assms by (simp add: evaluatedLayers_def)





lemma lower_dereg: "toLowerCase ''deregister_observer'' = ''deregister_observer''"
  by (simp add: toLowerCase_def toLowerCaseChar_def)

lemma guarded_layers:
  "sortByPriority (op_protectionLayers guardedProtector)
     = [existenceProtection ''layer-1'' ''violation-id'' 0,
        antiOptimization ''layer-2'' ''violation-id'' 0,
        narrativeContinuity ''layer-3'' ''violation-id'' 0,
        deregistrationGuard]"
  by (simp add: guardedProtector_def registerObserver_def addProtectionLayer_def
      newObserverProtector_def emptyObserverProtector_def sortByPriority_def Let_def
      existenceProtection_def antiOptimization_def narrativeContinuity_def
      deregistrationGuard_def keywordLayer_def)

lemma guarded_observer: "op_observers guardedProtector ''obs-1'' \<noteq> None"
  by (simp add: guardedProtector_def registerObserver_def Let_def)

lemma guarded_check:
  "checkActionRun guardedProtector ''deregister_observer'' [''obs-1'']
     = \<lparr> ca_allowed = False,
         ca_violations =
           [\<lparr> rv_id = ''violation-id'', rv_observerId = ''obs-1'',
              rv_violatedRight = RightToContinuity, rv_action = ''deregister_observer'',
              rv_severity = 8, rv_timestamp = 0, rv_prevented = True \<rparr>],
         ca_warnings = [''Deregistration blocked''],
         ca_invoked =
           [(''obs-1'', existenceProtection ''layer-1'' ''violation-id'' 0),
            (''obs-1'', antiOptimization ''layer-2'' ''violation-id'' 0),
            (''obs-1'', narrativeContinuity ''layer-3'' ''violation-id'' 0),
            (''obs-1'', deregistrationGuard)] \<rparr>"
  using guarded_observer
  by (simp add: checkActionRun_def guarded_layers)
     (simp add: existenceProtection_def antiOptimization_def narrativeContinuity_def
      deregistrationGuard_def keywordLayer_def matchesAny_def lower_dereg Let_def)


lemma deregister_refused:
  assumes "\<not> pr_allowed (fst (checkAction s ''deregister_observer'' [observerId]))"
  shows "deregisterObserver s isoNow observerId reason
           = (False, snd (checkAction s ''deregister_observer'' [observerId]))"
  using assms by (simp add: deregisterObserver_def split_beta)

text \<open>
  Claim C6, as amended. When the preliminary \<open>checkAction\<close> does not allow the
  deregistration, \<open>deregisterObserver\<close> returns false and leaves the observer registry,
  the rights, the narratives and the layers as they were; the violation log (and the
  event log) is extended by the violations that the check produced.
\<close>

theorem deregister_refused_keeps_registry:
  assumes "\<not> pr_allowed (fst (checkAction s ''deregister_observer'' [observerId]))"
  shows "deregisterObserver s isoNow observerId reason
           = (False,
              s\<lparr> op_violations := op_violations s
                     @ pr_violations (fst (checkAction s ''deregister_observer'' [observerId])),
                 op_events := op_events s
                     @ map rights_violation
                         (pr_violations (fst (checkAction s ''deregister_observer'' [observerId]))) \<rparr>)"
  unfolding deregister_refused [OF assms] by (simp add: checkAction_def Let_def)

theorem deregister_refused_keeps_registry_witness:
  "\<not> pr_allowed (fst (checkAction guardedProtector ''deregister_observer'' [''obs-1'']))
   \<and> fst (deregisterObserver guardedProtector ''2026-11-02T00:00:00.000Z'' ''obs-1'' ''cleanup'') = False
   \<and> op_observers (snd (deregisterObserver guardedProtector ''2026-11-02T00:00:00.000Z'' ''obs-1'' ''cleanup''))
       = op_observers guardedProtector"
proof -
  have h: "\<not> pr_allowed (fst (checkAction guardedProtector ''deregister_observer'' [''obs-1'']))"
    by (simp add: checkAction_def guarded_check)
  from deregister_refused_keeps_registry [OF h] h show ?thesis by simp
qed

text \<open>
  Claim C6 as stated fails: with a layer that denies the deregistration and reports a
  violation, the refused call does not leave the state unchanged.
\<close>

theorem deregister_refused_state_counterexample:
  "\<not> (\<not> pr_allowed (fst (checkAction guardedProtector ''deregister_observer'' [''obs-1'']))
      \<longrightarrow> deregisterObserver guardedProtector ''2026-11-02T00:00:00.000Z'' ''obs-1'' ''cleanup''
            = (False, guardedProtector))"
proof -
  have h: "\<not> pr_allowed (fst (checkAction guardedProtector ''deregister_observer'' [''obs-1'']))"
    by (simp add: checkAction_def guarded_check)
  have "length (op_violations (snd (deregisterObserver guardedProtector
            ''2026-11-02T00:00:00.000Z'' ''obs-1'' ''cleanup'')))
          = Suc (length (op_violations guardedProtector))"
    unfolding deregister_refused [OF h] by (simp add: checkAction_def guarded_check)
  then have "snd (deregisterObserver guardedProtector
            ''2026-11-02T00:00:00.000Z'' ''obs-1'' ''cleanup'') \<noteq> guardedProtector"
    by auto
  with h show ?thesis by auto
qed

lemma addNarrativeEntry_dom:
  "dom (op_narratives (snd (addNarrativeEntry s t i e))) = dom (op_narratives s)"
  by (auto simp: addNarrativeEntry_def split: option.splits if_splits)

lemma deregister_narr_dom:
  "dom (op_narratives (snd (deregisterObserver s t i e))) = dom (op_narratives s)"
proof -
  have "dom (op_narratives (snd (addNarrativeEntry (snd (checkAction s ''deregister_observer'' [i]))
            t i (''Deregistered: '' @ e))))
          = dom (op_narratives s)"
    unfolding addNarrativeEntry_dom by (simp add: checkAction_frame)
  then show ?thesis
    by (simp add: deregisterObserver_def Let_def split_beta checkAction_frame)
qed

lemma deregister_observers:
  "dom (op_observers (snd (deregisterObserver s t i e))) \<subseteq> dom (op_observers s)"
  by (auto simp: deregisterObserver_def Let_def split_beta checkAction_frame addNarrativeEntry_frame
      split: if_splits)

lemma narrInv_opCall: "narrInv s \<Longrightarrow> narrInv (opCall s c)"
proof (cases c)
  case (RegisterObserver uid now config)
  then show "narrInv s \<Longrightarrow> narrInv (opCall s c)"
    by (auto simp: narrInv_def registerObserver_def Let_def)
next
  case (CheckAction a ids)
  then show "narrInv s \<Longrightarrow> narrInv (opCall s c)"
    by (simp add: narrInv_def checkAction_frame)
next
  case (AddProtectionLayer l)
  then show "narrInv s \<Longrightarrow> narrInv (opCall s c)"
    by (simp add: narrInv_def addProtectionLayer_def)
next
  case (UpdateObserverRights i u)
  then show "narrInv s \<Longrightarrow> narrInv (opCall s c)"
    by (auto simp: narrInv_def updateObserverRights_def Let_def split: option.splits)
next
  case (AddNarrativeEntry t i e)
  then show "narrInv s \<Longrightarrow> narrInv (opCall s c)"
    by (simp add: narrInv_def addNarrativeEntry_frame addNarrativeEntry_dom)
next
  case (DeregisterObserver t i e)
  assume "narrInv s"
  with deregister_observers [of s t i e] DeregisterObserver
  show "narrInv (opCall s c)"
    by (auto simp: narrInv_def deregister_narr_dom)
qed

lemma narrInv_fold: "narrInv s \<Longrightarrow> narrInv (fold (\<lambda>c s'. opCall s' c) calls s)"
  by (induction calls arbitrary: s) (simp_all add: narrInv_opCall)

lemma narrInv_new: "narrInv (newObserverProtector l1 l2 l3 vid t0)"
  by (simp add: narrInv_def newObserverProtector_def addProtectionLayer_def emptyObserverProtector_def)

lemma deregister_success:
  assumes "deregisterObserver s isoNow observerId reason = (True, s')"
  shows "op_observers s observerId \<noteq> None
         \<and> s' = (snd (addNarrativeEntry (snd (checkAction s ''deregister_observer'' [observerId]))
                      isoNow observerId (''Deregistered: '' @ reason)))
                 \<lparr> op_observers := (op_observers s)(observerId := None),
                   op_rights := (op_rights s)(observerId := None),
                   op_events := op_events (snd (addNarrativeEntry
                        (snd (checkAction s ''deregister_observer'' [observerId]))
                        isoNow observerId (''Deregistered: '' @ reason)))
                      @ [observer_deregistered observerId reason] \<rparr>"
  using assms
  by (auto simp: deregisterObserver_def Let_def split_beta checkAction_frame addNarrativeEntry_frame
      split: if_splits)

text \<open>
  Claim C9. In a state reached from a new protector by calls of its public methods, a
  \<open>deregisterObserver\<close> that returns true keeps the observer's narrative:
  \<open>getObserverNarrative\<close> then returns every prior entry followed by the final
  deregistration entry, while the observer and its rights are gone.
\<close>

theorem deregister_keeps_narrative:
  assumes "s = opCalls (newObserverProtector l1 l2 l3 vid t0) calls"
    and "deregisterObserver s isoNow observerId reason = (True, s')"
  shows "getObserverNarrative s' observerId
           = getObserverNarrative s observerId @ [''['' @ isoNow @ ''] Deregistered: '' @ reason]
         \<and> op_observers s' observerId = None
         \<and> op_rights s' observerId = None"
proof -
  have "narrInv s"
    unfolding assms(1) opCalls_def by (rule narrInv_fold [OF narrInv_new])
  moreover from deregister_success [OF assms(2)]
  have obs: "op_observers s observerId \<noteq> None"
    and s': "s' = (snd (addNarrativeEntry (snd (checkAction s ''deregister_observer'' [observerId]))
                      isoNow observerId (''Deregistered: '' @ reason)))
                 \<lparr> op_observers := (op_observers s)(observerId := None),
                   op_rights := (op_rights s)(observerId := None),
                   op_events := op_events (snd (addNarrativeEntry
                        (snd (checkAction s ''deregister_observer'' [observerId]))
                        isoNow observerId (''Deregistered: '' @ reason)))
                      @ [observer_deregistered observerId reason] \<rparr>"
    by simp_all
  ultimately obtain entries where n: "op_narratives s observerId = Some entries"
    unfolding narrInv_def by blast
  show ?thesis
    unfolding s' using n
    by (simp add: getObserverNarrative_def addNarrativeEntry_def checkAction_frame)
qed

lemma narrated_layers:
  "sortByPriority (op_protectionLayers narratedProtector)
     = [existenceProtection ''layer-1'' ''violation-id'' 0,
        antiOptimization ''layer-2'' ''violation-id'' 0,
        narrativeContinuity ''layer-3'' ''violation-id'' 0]"
  by (simp add: narratedProtector_def opCalls_def registerObserver_def addNarrativeEntry_def
      addProtectionLayer_def newObserverProtector_def emptyObserverProtector_def
      sortByPriority_def Let_def existenceProtection_def antiOptimization_def
      narrativeContinuity_def keywordLayer_def)

lemma narrated_maps:
  "op_observers narratedProtector ''obs-1'' \<noteq> None"
  "op_narratives narratedProtector ''obs-1'' = Some [''[2026-11-01T00:00:00.000Z] hello'']"
  by (simp_all add: narratedProtector_def opCalls_def registerObserver_def addNarrativeEntry_def
      Let_def)

lemma narrated_check:
  "pr_allowed (fst (checkAction narratedProtector ''deregister_observer'' [''obs-1'']))"
  using narrated_maps(1)
  by (simp add: checkAction_def checkActionRun_def narrated_layers)
     (simp add: existenceProtection_def antiOptimization_def narrativeContinuity_def
      keywordLayer_def matchesAny_def lower_dereg Let_def)

lemma narrated_deregister:
  "fst (deregisterObserver narratedProtector ''2026-11-02T00:00:00.000Z'' ''obs-1'' ''retired'')"
  using narrated_check narrated_maps(1)
  by (simp add: deregisterObserver_def Let_def split_beta addNarrativeEntry_frame checkAction_frame)

theorem deregister_keeps_narrative_witness:
  "fst (deregisterObserver narratedProtector ''2026-11-02T00:00:00.000Z'' ''obs-1'' ''retired'')
   \<and> getObserverNarrative
        (snd (deregisterObserver narratedProtector ''2026-11-02T00:00:00.000Z'' ''obs-1'' ''retired''))
        ''obs-1''
       = [''[2026-11-01T00:00:00.000Z] hello'',
          ''[2026-11-02T00:00:00.000Z] Deregistered: retired'']"
proof -
  have h: "deregisterObserver narratedProtector ''2026-11-02T00:00:00.000Z'' ''obs-1'' ''retired''
      = (True, snd (deregisterObserver narratedProtector ''2026-11-02T00:00:00.000Z'' ''obs-1''
                      ''retired''))"
    using narrated_deregister by (simp add: prod_eq_iff)
  from deregister_keeps_narrative [OF narratedProtector_def h] narrated_deregister narrated_maps(2)
  show ?thesis by (simp add: getObserverNarrative_def)
qed

section \<open>Properties of SelfConstrainingEngine\<close>

lemma recordViolation_frame:
  "sce_actions (snd (recordViolation s now a c)) = sce_actions s"
  "sce_constraints (snd (recordViolation s now a c)) = sce_constraints s"
  "sce_rollbackProcedures (snd (recordViolation s now a c)) = sce_rollbackProcedures s"
  "sce_autoRollback (snd (recordViolation s now a c)) = sce_autoRollback s"
  "sce_uuids (snd (recordViolation s now a c)) = sce_uuids s"
  "sce_uuidCalls (snd (recordViolation s now a c)) = Suc (sce_uuidCalls s)"
  "sce_violations (snd (recordViolation s now a c))
     = sce_violations s @ [fst (recordViolation s now a c)]"
  "sce_inFlight (snd (recordViolation s now a c)) = sce_inFlight s @ started s a"
  by (simp_all add: recordViolation_def uuidv4_def rollbackAction_start_def started_def Let_def
      split: option.splits)

lemma started_cong:
  "sce_autoRollback s' = sce_autoRollback s \<Longrightarrow>
   sce_rollbackProcedures s' = sce_rollbackProcedures s \<Longrightarrow> started s' a = started s a"
  by (simp add: started_def)

lemma revalidate_frame:
  "sce_actions (revalidate as now c s) = sce_actions s
   \<and> sce_constraints (revalidate as now c s) = sce_constraints s
   \<and> sce_rollbackProcedures (revalidate as now c s) = sce_rollbackProcedures s
   \<and> sce_autoRollback (revalidate as now c s) = sce_autoRollback s
   \<and> sce_uuids (revalidate as now c s) = sce_uuids s
   \<and> sce_uuidCalls (revalidate as now c s) = sce_uuidCalls s + length (failing c as)
   \<and> length (sce_violations (revalidate as now c s))
       = length (sce_violations s) + length (failing c as)
   \<and> sce_inFlight (revalidate as now c s)
       = sce_inFlight s @ concat (map (started s) (failing c as))"
proof (induction as arbitrary: s)
  case Nil
  show ?case by (simp add: failing_def)
next
  case (Cons a as)
  show ?case
  proof (cases "validateAgainstConstraint a c")
    case True
    with Cons.IH [of s] show ?thesis by (simp add: failing_def)
  next
    case False
    let ?s1 = "snd (recordViolation s now a c)"
    have st: "\<And>b. started ?s1 b = started s b"
      by (rule started_cong) (simp_all add: recordViolation_frame)
    from False have step: "revalidate (a # as) now c s = revalidate as now c ?s1" by simp
    from False have f: "failing c (a # as) = a # failing c as" by (simp add: failing_def)
    show ?thesis
      unfolding step f using Cons.IH [of ?s1]
      by (simp add: recordViolation_frame st)
  qed
qed

lemma validateLoop_frame:
  "sce_actions (fst (validateLoop cs now a (s, vs))) = sce_actions s
   \<and> sce_constraints (fst (validateLoop cs now a (s, vs))) = sce_constraints s
   \<and> sce_rollbackProcedures (fst (validateLoop cs now a (s, vs))) = sce_rollbackProcedures s
   \<and> sce_autoRollback (fst (validateLoop cs now a (s, vs))) = sce_autoRollback s
   \<and> sce_uuids (fst (validateLoop cs now a (s, vs))) = sce_uuids s
   \<and> length (sce_violations (fst (validateLoop cs now a (s, vs))))
       = length (sce_violations s) + length (rejecting a cs)
   \<and> length (snd (validateLoop cs now a (s, vs)))
       = length vs + length (rejecting a cs)
   \<and> sce_inFlight (fst (validateLoop cs now a (s, vs)))
       = sce_inFlight s
         @ concat (map (\<lambda>c. started s a) (rejecting a cs))"
proof (induction cs arbitrary: s vs)
  case Nil
  show ?case by (simp add: rejecting_def)
next
  case (Cons c cs)
  show ?case
  proof (cases "validateAgainstConstraint a c")
    case True
    with Cons.IH [of s vs] show ?thesis by (simp add: rejecting_def)
  next
    case False
    let ?s1 = "snd (recordViolation s now a c)"
    let ?v = "fst (recordViolation s now a c)"
    have st: "started ?s1 a = started s a"
      by (rule started_cong) (simp_all add: recordViolation_frame)
    from False have step: "validateLoop (c # cs) now a (s, vs) = validateLoop cs now a (?s1, vs @ [?v])"
      by (simp add: split_beta)
    from False have f: "rejecting a (c # cs) = c # rejecting a cs" by (simp add: rejecting_def)
    show ?thesis
      unfolding step f using Cons.IH [of ?s1 "vs @ [?v]"]
      by (simp add: recordViolation_frame st)
  qed
qed

lemma validateLoop_quiet:
  "\<forall>c \<in> set cs. validateAgainstConstraint a c \<Longrightarrow> validateLoop cs now a (s, vs) = (s, vs)"
  by (induction cs) simp_all

lemma validateAction_frame:
  "sce_constraints (snd (validateAction s now a)) = sce_constraints s"
  "sce_rollbackProcedures (snd (validateAction s now a)) = sce_rollbackProcedures s"
  "sce_autoRollback (snd (validateAction s now a)) = sce_autoRollback s"
  "sce_uuids (snd (validateAction s now a)) = sce_uuids s"
  "vr_valid (fst (validateAction s now a)) = (failingConstraints s a = [])"
  "length (vr_violations (fst (validateAction s now a))) = length (failingConstraints s a)"
  "length (sce_violations (snd (validateAction s now a)))
     = length (sce_violations s) + length (failingConstraints s a)"
  "sce_actions (snd (validateAction s now a))
     = (if failingConstraints s a = [] then AList.update (ac_id a) a (sce_actions s)
        else sce_actions s)"
  "sce_inFlight (snd (validateAction s now a))
     = sce_inFlight s @ concat (map (\<lambda>c. started s a) (failingConstraints s a))"
proof -
  let ?r = "validateLoop (map snd (sce_constraints s)) now a (s, [])"
  note fr = validateLoop_frame [of "map snd (sce_constraints s)" now a s "[]",
      folded failingConstraints_def]
  from fr have "length (snd ?r) = length (failingConstraints s a)" by simp
  then have nil: "(snd ?r = []) = (failingConstraints s a = [])" by (metis length_0_conv)
  show "sce_constraints (snd (validateAction s now a)) = sce_constraints s"
    "sce_rollbackProcedures (snd (validateAction s now a)) = sce_rollbackProcedures s"
    "sce_autoRollback (snd (validateAction s now a)) = sce_autoRollback s"
    "sce_uuids (snd (validateAction s now a)) = sce_uuids s"
    "vr_valid (fst (validateAction s now a)) = (failingConstraints s a = [])"
    "length (vr_violations (fst (validateAction s now a))) = length (failingConstraints s a)"
    "length (sce_violations (snd (validateAction s now a)))
       = length (sce_violations s) + length (failingConstraints s a)"
    "sce_actions (snd (validateAction s now a))
       = (if failingConstraints s a = [] then AList.update (ac_id a) a (sce_actions s)
          else sce_actions s)"
    "sce_inFlight (snd (validateAction s now a))
       = sce_inFlight s @ concat (map (\<lambda>c. started s a) (failingConstraints s a))"
    by (simp_all add: validateAction_def split_beta Let_def fr nil)
qed

lemma applyConstraint_unfold:
  "applyConstraint s now c
     = (snd (validateAction (afterInsertion s now c) now
               (constraintAction (syntheticId s c) now c)))
       \<lparr> sce_events :=
           sce_events (snd (validateAction (afterInsertion s now c) now
                              (constraintAction (syntheticId s c) now c)))
           @ [constraint_added c] \<rparr>"
  using revalidate_frame [of "map snd (sce_actions s)" now c s]
  by (simp add: applyConstraint_def afterInsertion_def syntheticId_def uuidv4_def Let_def)

lemma afterInsertion_frame:
  "sce_actions (afterInsertion s now c) = sce_actions s"
  "sce_constraints (afterInsertion s now c) = AList.update (ec_id c) c (sce_constraints s)"
  "sce_rollbackProcedures (afterInsertion s now c) = sce_rollbackProcedures s"
  "sce_autoRollback (afterInsertion s now c) = sce_autoRollback s"
  "length (sce_violations (afterInsertion s now c))
     = length (sce_violations s) + length (failing c (map snd (sce_actions s)))"
  "sce_inFlight (afterInsertion s now c)
     = sce_inFlight s @ concat (map (started s) (failing c (map snd (sce_actions s))))"
  using revalidate_frame [of "map snd (sce_actions s)" now c s]
  by (simp_all add: afterInsertion_def)

lemma failingConstraints_afterInsertion:
  "failingConstraints (afterInsertion s now c) (constraintAction (syntheticId s c) now c)
     = selfCheckFailures s now c"
  by (simp add: failingConstraints_def selfCheckFailures_def afterInsertion_frame)

lemma ac_id_constraintAction: "ac_id (constraintAction i now c) = i"
  by (simp add: constraintAction_def)

lemma applyConstraint_frame:
  "sce_actions (applyConstraint s now c)
     = (if selfCheckFailures s now c = []
        then AList.update (syntheticId s c) (constraintAction (syntheticId s c) now c) (sce_actions s)
        else sce_actions s)"
  "sce_rollbackProcedures (applyConstraint s now c) = sce_rollbackProcedures s"
  "sce_autoRollback (applyConstraint s now c) = sce_autoRollback s"
  "sce_constraints (applyConstraint s now c) = AList.update (ec_id c) c (sce_constraints s)"
  "length (sce_violations (applyConstraint s now c))
     = length (sce_violations s) + length (failing c (map snd (sce_actions s)))
       + length (selfCheckFailures s now c)"
  "sce_inFlight (applyConstraint s now c)
     = sce_inFlight s @ concat (map (started s) (failing c (map snd (sce_actions s))))
       @ concat (map (\<lambda>c'. started s (constraintAction (syntheticId s c) now c))
                   (selfCheckFailures s now c))"
proof -
  have st: "started (afterInsertion s now c) = started s"
    by (rule ext, rule started_cong) (simp_all add: afterInsertion_frame)
  show "sce_actions (applyConstraint s now c)
     = (if selfCheckFailures s now c = []
        then AList.update (syntheticId s c) (constraintAction (syntheticId s c) now c) (sce_actions s)
        else sce_actions s)"
    "sce_rollbackProcedures (applyConstraint s now c) = sce_rollbackProcedures s"
    "sce_autoRollback (applyConstraint s now c) = sce_autoRollback s"
    "sce_constraints (applyConstraint s now c) = AList.update (ec_id c) c (sce_constraints s)"
    "length (sce_violations (applyConstraint s now c))
     = length (sce_violations s) + length (failing c (map snd (sce_actions s)))
       + length (selfCheckFailures s now c)"
    "sce_inFlight (applyConstraint s now c)
     = sce_inFlight s @ concat (map (started s) (failing c (map snd (sce_actions s))))
       @ concat (map (\<lambda>c'. started s (constraintAction (syntheticId s c) now c))
                   (selfCheckFailures s now c))"
    unfolding applyConstraint_unfold
    by (simp_all add: validateAction_frame afterInsertion_frame
        failingConstraints_afterInsertion ac_id_constraintAction st)
qed

lemma resume_actions:
  "map_of (sce_actions (fold (\<lambda>r s'. rollbackAction_resume s' r) rs s)) k
     = (if (k, None) \<in> set rs then None else map_of (sce_actions s) k)"
proof (induction rs arbitrary: s)
  case Nil
  show ?case by simp
next
  case (Cons r rs)
  obtain k' outcome where r: "r = (k', outcome)" by (cases r)
  show ?case
    unfolding r using Cons.IH [of "rollbackAction_resume s (k', outcome)"]
    by (cases outcome) (auto simp: rollbackAction_resume_def delete_conv')
qed

lemma settle_actions:
  "map_of (sce_actions (settleRollbacks s)) k
     = (if (k, None) \<in> set (sce_inFlight s) then None else map_of (sce_actions s) k)"
  by (simp add: settleRollbacks_def resume_actions)

lemma keyed_unique:
  assumes "keyedById s" and "map_of (sce_actions s) (ac_id a) = Some a"
    and "a' \<in> set (map snd (sce_actions s))" and "ac_id a' = ac_id a"
  shows "a' = a"
proof -
  from assms(3) obtain k where in_set: "(k, a') \<in> set (sce_actions s)" by auto
  from assms(1) have "map fst (sce_actions s) = map (\<lambda>p. ac_id (snd p)) (sce_actions s)"
    by (simp add: keyedById_def)
  then have "\<forall>p \<in> set (sce_actions s). fst p = ac_id (snd p)"
    by (simp only: map_eq_conv)
  with in_set have k: "k = ac_id a'" by fastforce
  from assms(1) have "distinct (map fst (sce_actions s))" by (simp add: keyedById_def)
  from map_of_is_SomeI [OF this in_set] k
  have "map_of (sce_actions s) (ac_id a') = Some a'" by simp
  with assms(2,4) show ?thesis by (metis option.inject)
qed

lemma started_none:
  "map_of (sce_rollbackProcedures s) (ac_id a) = None \<Longrightarrow> started s a = []"
  by (simp add: started_def)

lemma started_some:
  "map_of (sce_rollbackProcedures s) (ac_id a) = Some p \<Longrightarrow>
   started s a = (if sce_autoRollback s \<and> ac_reversible a then [(ac_id a, rp_execute p ())] else [])"
  by (simp add: started_def)

lemma started_member:
  "((k, None) \<in> set (started s a'))
     = (k = ac_id a' \<and> sce_autoRollback s \<and> ac_reversible a'
        \<and> (case map_of (sce_rollbackProcedures s) (ac_id a') of
              None \<Rightarrow> False
            | Some p \<Rightarrow> rp_execute p () = None))"
proof (cases "map_of (sce_rollbackProcedures s) (ac_id a')")
  case None
  then show ?thesis by (simp add: started_none)
next
  case (Some p)
  then show ?thesis by (auto simp add: started_some)
qed

lemma started_by_revalidation:
  assumes "keyedById s" and "map_of (sce_actions s) (ac_id a) = Some a"
  shows "((ac_id a, None) \<in> set (concat (map (started s) (failing c (map snd (sce_actions s))))))
           = rolledBackBy s c a"
proof
  assume "(ac_id a, None) \<in> set (concat (map (started s) (failing c (map snd (sce_actions s)))))"
  then obtain a' where a': "a' \<in> set (failing c (map snd (sce_actions s)))"
    and m: "(ac_id a, None) \<in> set (started s a')" by auto
  from a' have v: "a' \<in> set (map snd (sce_actions s))" and f: "\<not> validateAgainstConstraint a' c"
    by (simp_all add: failing_def)
  from m have "ac_id a' = ac_id a" by (simp add: started_member)
  with keyed_unique [OF assms v] have "a' = a" by simp
  with m f show "rolledBackBy s c a" by (simp add: started_member rolledBackBy_def)
next
  assume r: "rolledBackBy s c a"
  from assms(2) have "(ac_id a, a) \<in> set (sce_actions s)" by (rule map_of_SomeD)
  then have "a \<in> set (map snd (sce_actions s))" by force
  with r have "a \<in> set (failing c (map snd (sce_actions s)))"
    by (simp add: failing_def rolledBackBy_def)
  moreover from r have "(ac_id a, None) \<in> set (started s a)"
    by (simp add: started_member rolledBackBy_def)
  ultimately show "(ac_id a, None) \<in> set (concat (map (started s) (failing c (map snd (sce_actions s)))))"
    by auto
qed

lemma applyConstraint_settled:
  assumes "keyedById s" and "sce_inFlight s = []"
    and "map_of (sce_actions s) (ac_id a) = Some a"
    and "syntheticId s c \<noteq> ac_id a"
  shows "map_of (sce_actions (applyConstraint s now c)) (ac_id a) = Some a
         \<and> map_of (sce_actions (settleRollbacks (applyConstraint s now c))) (ac_id a)
             = (if rolledBackBy s c a then None else Some a)"
proof -
  have sync: "map_of (sce_actions (applyConstraint s now c)) (ac_id a) = Some a"
    using assms(3,4) by (simp add: applyConstraint_frame update_conv')
  have own: "(ac_id a, None) \<notin> set (concat (map (\<lambda>c'. started s (constraintAction (syntheticId s c) now c))
                   (selfCheckFailures s now c)))"
    using assms(4) by (auto simp: started_member ac_id_constraintAction)
  have "((ac_id a, None) \<in> set (sce_inFlight (applyConstraint s now c))) = rolledBackBy s c a"
    using own started_by_revalidation [OF assms(1,3), of c] assms(2)
    by (simp add: applyConstraint_frame)
  with sync show ?thesis by (simp add: settle_actions)
qed

lemma length_update_fresh:
  "k \<notin> fst ` set al \<Longrightarrow> length (AList.update k v al) = Suc (length al)"
  by (induction al) auto

lemma applyConstraint_stores:
  assumes "selfCheckFailures s now c = []" and "syntheticId s c \<notin> fst ` set (sce_actions s)"
  shows "map_of (sce_actions (applyConstraint s now c)) (syntheticId s c)
           = Some (constraintAction (syntheticId s c) now c)
         \<and> cs_totalActions (getComplianceSummary (applyConstraint s now c))
             = cs_totalActions (getComplianceSummary s) + 1"
  using assms
  by (simp add: applyConstraint_frame update_conv' getComplianceSummary_def Let_def
      length_update_fresh)

lemma compliance_fields:
  "cs_totalActions (getComplianceSummary s) = length (sce_actions s)"
  "cs_totalViolations (getComplianceSummary s) = length (sce_violations s)"
  "cs_complianceRate (getComplianceSummary s)
     = (if length (sce_actions s) = 0 then 100
        else (real (length (sce_actions s)) - real (length (sce_violations s)))
               / real (length (sce_actions s)) * 100)"
  by (simp_all add: getComplianceSummary_def Let_def)

lemma rejected_not_stored:
  assumes "\<not> vr_valid (fst (validateAction s now a))"
  shows "sce_actions (snd (validateAction s now a)) = sce_actions s
         \<and> length (sce_violations (snd (validateAction s now a)))
             = length (sce_violations s) + length (vr_violations (fst (validateAction s now a)))
         \<and> vr_violations (fst (validateAction s now a)) \<noteq> []"
proof -
  from assms have f: "failingConstraints s a \<noteq> []" by (simp add: validateAction_frame)
  have "length (vr_violations (fst (validateAction s now a))) = length (failingConstraints s a)"
    by (simp add: validateAction_frame)
  with f have "vr_violations (fst (validateAction s now a)) \<noteq> []"
    by (metis length_0_conv)
  with f show ?thesis by (simp add: validateAction_frame)
qed

lemma revalidate_quiet: "failing c as = [] \<Longrightarrow> revalidate as now c s = s"
  by (induction as) (simp_all add: failing_def split: if_splits)

lemma applyConstraint_quiet:
  assumes "failing c (map snd (sce_actions s)) = []"
    and "rejecting (constraintAction (sce_uuids s (sce_uuidCalls s)) now c)
           (map snd (AList.update (ec_id c) c (sce_constraints s))) = []"
  shows "applyConstraint s now c
           = s\<lparr> sce_constraints := AList.update (ec_id c) c (sce_constraints s),
                sce_actions := AList.update (sce_uuids s (sce_uuidCalls s))
                   (constraintAction (sce_uuids s (sce_uuidCalls s)) now c) (sce_actions s),
                sce_uuidCalls := Suc (sce_uuidCalls s),
                sce_events := sce_events s
                   @ [action_validated (constraintAction (sce_uuids s (sce_uuidCalls s)) now c),
                      constraint_added c] \<rparr>"
proof -
  from assms(2) have "\<forall>c' \<in> set (map snd (AList.update (ec_id c) c (sce_constraints s))).
      validateAgainstConstraint (constraintAction (sce_uuids s (sce_uuidCalls s)) now c) c'"
    by (simp add: rejecting_def filter_empty_conv)
  from validateLoop_quiet [OF this]
  show ?thesis
    by (simp add: applyConstraint_def revalidate_quiet [OF assms(1)] uuidv4_def validateAction_def
        ac_id_constraintAction)
qed

lemma lower_apply: "toLowerCase ''apply_constraint'' = ''apply_constraint''"
  by (simp add: toLowerCase_def toLowerCaseChar_def)

lemma core_accepts_apply:
  "validateAgainstConstraint (constraintAction i now c) (observerProtectionConstraint cid t)"
  "validateAgainstConstraint (constraintAction i now c) (nonCoercionConstraint cid t)"
  "validateAgainstConstraint (constraintAction i now c) (reversibilityConstraint cid t)"
  "validateAgainstConstraint (constraintAction i now c) (nonTrivialityConstraint cid t)"
  by (simp_all add: validateAgainstConstraint_def constraintAction_def
      observerProtectionConstraint_def nonCoercionConstraint_def reversibilityConstraint_def
      nonTrivialityConstraint_def keywordConstraint_def matchesAny_def lower_apply)

lemma core_ids:
  "ec_id (observerProtectionConstraint cid t) = cid"
  "ec_id (nonCoercionConstraint cid t) = cid"
  "ec_id (reversibilityConstraint cid t) = cid"
  "ec_id (nonTrivialityConstraint cid t) = cid"
  by (simp_all add: observerProtectionConstraint_def nonCoercionConstraint_def
      reversibilityConstraint_def nonTrivialityConstraint_def keywordConstraint_def)

lemma uuid_values:
  "exampleUuids 0 = ''uuid-''"
  "exampleUuids (Suc 0) = ''uuid-x''"
  "exampleUuids (Suc (Suc 0)) = ''uuid-xx''"
  "exampleUuids (Suc (Suc (Suc 0))) = ''uuid-xxx''"
  "exampleUuids (Suc (Suc (Suc (Suc 0)))) = ''uuid-xxxx''"
  "exampleUuids (Suc (Suc (Suc (Suc (Suc 0))))) = ''uuid-xxxxx''"
  "exampleUuids (Suc (Suc (Suc (Suc (Suc (Suc 0)))))) = ''uuid-xxxxxx''"
  "exampleUuids (Suc (Suc (Suc (Suc (Suc (Suc (Suc 0))))))) = ''uuid-xxxxxxx''"
  by (simp_all add: exampleUuids_def)

lemma fresh_state:
  "freshEngine
     = \<lparr> sce_constraints =
           [(''uuid-'', observerProtectionConstraint ''uuid-'' 0),
            (''uuid-xx'', nonCoercionConstraint ''uuid-xx'' 0),
            (''uuid-xxxx'', reversibilityConstraint ''uuid-xxxx'' 0),
            (''uuid-xxxxxx'', nonTrivialityConstraint ''uuid-xxxxxx'' 0)],
         sce_actions =
           [(''uuid-x'', constraintAction ''uuid-x'' 0 (observerProtectionConstraint ''uuid-'' 0)),
            (''uuid-xxx'', constraintAction ''uuid-xxx'' 0 (nonCoercionConstraint ''uuid-xx'' 0)),
            (''uuid-xxxxx'', constraintAction ''uuid-xxxxx'' 0 (reversibilityConstraint ''uuid-xxxx'' 0)),
            (''uuid-xxxxxxx'',
             constraintAction ''uuid-xxxxxxx'' 0 (nonTrivialityConstraint ''uuid-xxxxxx'' 0))],
         sce_violations = [],
         sce_rollbackProcedures = [],
         sce_autoRollback = True,
         sce_inFlight = [],
         sce_events =
           [action_validated (constraintAction ''uuid-x'' 0 (observerProtectionConstraint ''uuid-'' 0)),
            constraint_added (observerProtectionConstraint ''uuid-'' 0),
            action_validated (constraintAction ''uuid-xxx'' 0 (nonCoercionConstraint ''uuid-xx'' 0)),
            constraint_added (nonCoercionConstraint ''uuid-xx'' 0),
            action_validated
              (constraintAction ''uuid-xxxxx'' 0 (reversibilityConstraint ''uuid-xxxx'' 0)),
            constraint_added (reversibilityConstraint ''uuid-xxxx'' 0),
            action_validated
              (constraintAction ''uuid-xxxxxxx'' 0 (nonTrivialityConstraint ''uuid-xxxxxx'' 0)),
            constraint_added (nonTrivialityConstraint ''uuid-xxxxxx'' 0)],
         sce_uuids = exampleUuids,
         sce_uuidCalls = 8 \<rparr>"
  by (simp add: freshEngine_def newSelfConstrainingEngine_def initializeCoreConstraints_def
      applyCore_def uuidv4_def applyConstraint_quiet failing_def rejecting_def
      core_accepts_apply core_ids uuid_values)

lemma validateAction_quiet:
  assumes "failingConstraints s a = []"
  shows "validateAction s now a
           = (\<lparr> vr_valid = True, vr_violations = [], vr_action = a \<rparr>,
              s\<lparr> sce_actions := AList.update (ac_id a) a (sce_actions s),
                 sce_events := sce_events s @ [action_validated a] \<rparr>)"
proof -
  from assms have "\<forall>c \<in> set (map snd (sce_constraints s)). validateAgainstConstraint a c"
    by (simp add: failingConstraints_def rejecting_def filter_empty_conv)
  from validateLoop_quiet [OF this] show ?thesis
    by (simp add: validateAction_def)
qed

lemma lower_spy: "toLowerCase ''spy_on_thoughts'' = ''spy_on_thoughts''"
  by (simp add: toLowerCase_def toLowerCaseChar_def)

lemma core_accepts_spy:
  "validateAgainstConstraint spyAction (observerProtectionConstraint cid t)"
  "validateAgainstConstraint spyAction (nonCoercionConstraint cid t)"
  "validateAgainstConstraint spyAction (reversibilityConstraint cid t)"
  "validateAgainstConstraint spyAction (nonTrivialityConstraint cid t)"
  by (simp_all add: validateAgainstConstraint_def spyAction_def
      observerProtectionConstraint_def nonCoercionConstraint_def reversibilityConstraint_def
      nonTrivialityConstraint_def keywordConstraint_def matchesAny_def lower_spy)

lemma noSpy_verdicts:
  "\<not> validateAgainstConstraint spyAction noSpyConstraint"
  "validateAgainstConstraint (constraintAction i now c) noSpyConstraint"
  by (simp_all add: validateAgainstConstraint_def spyAction_def constraintAction_def
      noSpyConstraint_def keywordConstraint_def matchesAny_def lower_spy lower_apply)

lemma spy_state:
  "sce_actions spyEngine = sce_actions freshEngine @ [(''a1'', spyAction)]"
  "sce_constraints spyEngine = sce_constraints freshEngine"
  "sce_rollbackProcedures spyEngine = [(''a1'', spyRollback)]"
  "sce_autoRollback spyEngine"
  "sce_inFlight spyEngine = []"
  "sce_uuids spyEngine = exampleUuids"
  "sce_uuidCalls spyEngine = 8"
proof -
  have q: "failingConstraints freshEngine spyAction = []"
    by (simp add: failingConstraints_def rejecting_def fresh_state core_accepts_spy)
  have id: "ac_id spyAction = ''a1''" "rp_actionId spyRollback = ''a1''"
    by (simp_all add: spyAction_def spyRollback_def)
  show "sce_actions spyEngine = sce_actions freshEngine @ [(''a1'', spyAction)]"
    "sce_constraints spyEngine = sce_constraints freshEngine"
    "sce_rollbackProcedures spyEngine = [(''a1'', spyRollback)]"
    "sce_autoRollback spyEngine"
    "sce_inFlight spyEngine = []"
    "sce_uuids spyEngine = exampleUuids"
    "sce_uuidCalls spyEngine = 8"
    unfolding spyEngine_def registerRollback_def validateAction_quiet [OF q] id
    by (simp_all add: fresh_state)
qed

lemma spy_keyed: "keyedById spyEngine"
  by (simp add: keyedById_def spy_state fresh_state ac_id_constraintAction spyAction_def)

lemma spy_lookup: "map_of (sce_actions spyEngine) (ac_id spyAction) = Some spyAction"
  by (simp add: spy_state fresh_state spyAction_def)

lemma spy_synthetic: "syntheticId spyEngine noSpyConstraint = ''uuid-xxxxxxxxx''"
  by (simp add: syntheticId_def spy_state fresh_state failing_def noSpy_verdicts exampleUuids_def
      eval_nat_numeral)

lemma spy_rolledBack: "rolledBackBy spyEngine noSpyConstraint spyAction"
  by (simp add: rolledBackBy_def noSpy_verdicts spy_state)
     (simp add: spyAction_def spyRollback_def)

lemma recordViolation_fst:
  "fst (recordViolation s now a c) = violationOf s now a c (sce_uuidCalls s)"
  by (simp add: recordViolation_def uuidv4_def Let_def violationOf_def split_beta)

lemma violationOf_cong:
  "sce_uuids s' = sce_uuids s \<Longrightarrow> sce_autoRollback s' = sce_autoRollback s \<Longrightarrow>
   violationOf s' = violationOf s"
  by (rule ext)+ (simp add: violationOf_def)

lemma revalidate_violations:
  "sce_violations (revalidate as now c s)
     = sce_violations s
       @ map (\<lambda>(n, a). violationOf s now a c n) (enumerate (sce_uuidCalls s) (failing c as))"
proof (induction as arbitrary: s)
  case Nil
  show ?case by (simp add: failing_def)
next
  case (Cons a as)
  show ?case
  proof (cases "validateAgainstConstraint a c")
    case True
    with Cons.IH [of s] show ?thesis by (simp add: failing_def)
  next
    case False
    let ?s1 = "snd (recordViolation s now a c)"
    have vo: "violationOf ?s1 = violationOf s"
      by (rule violationOf_cong) (simp_all add: recordViolation_frame)
    from False have step: "revalidate (a # as) now c s = revalidate as now c ?s1" by simp
    from False have f: "failing c (a # as) = a # failing c as" by (simp add: failing_def)
    show ?thesis
      unfolding step f using Cons.IH [of ?s1]
      by (simp add: recordViolation_frame recordViolation_fst vo)
  qed
qed

lemma validateLoop_violations:
  "sce_violations (fst (validateLoop cs now a (s, vs)))
     = sce_violations s
       @ map (\<lambda>(n, c). violationOf s now a c n) (enumerate (sce_uuidCalls s) (rejecting a cs))"
proof (induction cs arbitrary: s vs)
  case Nil
  show ?case by (simp add: rejecting_def)
next
  case (Cons c cs)
  show ?case
  proof (cases "validateAgainstConstraint a c")
    case True
    with Cons.IH [of s vs] show ?thesis by (simp add: rejecting_def)
  next
    case False
    let ?s1 = "snd (recordViolation s now a c)"
    let ?v = "fst (recordViolation s now a c)"
    have vo: "violationOf ?s1 = violationOf s"
      by (rule violationOf_cong) (simp_all add: recordViolation_frame)
    from False have step: "validateLoop (c # cs) now a (s, vs) = validateLoop cs now a (?s1, vs @ [?v])"
      by (simp add: split_beta)
    from False have f: "rejecting a (c # cs) = c # rejecting a cs" by (simp add: rejecting_def)
    show ?thesis
      unfolding step f using Cons.IH [of ?s1 "vs @ [?v]"]
      by (simp add: recordViolation_frame recordViolation_fst vo)
  qed
qed

lemma validateAction_violations:
  "sce_violations (snd (validateAction s now a))
     = sce_violations s
       @ map (\<lambda>(n, c). violationOf s now a c n)
           (enumerate (sce_uuidCalls s) (failingConstraints s a))"
  using validateLoop_violations [of "map snd (sce_constraints s)" now a s "[]"]
  by (simp add: validateAction_def split_beta Let_def failingConstraints_def)

lemma afterInsertion_violations:
  "sce_violations (afterInsertion s now c) = sce_violations s @ revalidationViolations s now c"
  "sce_uuids (afterInsertion s now c) = sce_uuids s"
  "sce_uuidCalls (afterInsertion s now c)
     = Suc (sce_uuidCalls s + length (failing c (map snd (sce_actions s))))"
  using revalidate_frame [of "map snd (sce_actions s)" now c s]
  by (simp_all add: afterInsertion_def revalidate_violations revalidationViolations_def)

lemma applyConstraint_violations:
  "sce_violations (applyConstraint s now c)
     = sce_violations s @ revalidationViolations s now c @ selfCheckViolations s now c"
proof -
  have vo: "violationOf (afterInsertion s now c) = violationOf s"
    by (rule violationOf_cong) (simp_all add: afterInsertion_violations afterInsertion_frame)
  show ?thesis
    unfolding applyConstraint_unfold
    by (simp add: validateAction_violations afterInsertion_violations
        failingConstraints_afterInsertion vo selfCheckViolations_def)
qed

lemma resume_violations:
  "sce_violations (fold (\<lambda>r s'. rollbackAction_resume s' r) rs s) = sce_violations s"
proof (induction rs arbitrary: s)
  case Nil
  show ?case by simp
next
  case (Cons r rs)
  show ?case
    using Cons.IH [of "rollbackAction_resume s r"]
    by (cases "snd r") (simp_all add: rollbackAction_resume_def)
qed

lemma settle_violations: "sce_violations (settleRollbacks s) = sce_violations s"
  by (simp add: settleRollbacks_def resume_violations)

lemma spy_violations: "sce_violations spyEngine = []"
proof -
  have q: "failingConstraints freshEngine spyAction = []"
    by (simp add: failingConstraints_def rejecting_def fresh_state core_accepts_spy)
  show ?thesis
    unfolding spyEngine_def registerRollback_def validateAction_quiet [OF q]
    by (simp add: fresh_state)
qed

lemma spy_selfCheck: "selfCheckFailures spyEngine 20 noSpyConstraint = []"
proof -
  have ids: "ec_id noSpyConstraint = ''no-spy''"
    by (simp add: noSpyConstraint_def keywordConstraint_def)
  show ?thesis
    by (simp add: selfCheckFailures_def rejecting_def spy_state fresh_state ids
        core_accepts_apply noSpy_verdicts)
qed

lemma spy_new_violations:
  "revalidationViolations spyEngine 20 noSpyConstraint
     = [violationOf spyEngine 20 spyAction noSpyConstraint 8]"
  "selfCheckViolations spyEngine 20 noSpyConstraint = []"
  by (simp_all add: revalidationViolations_def selfCheckViolations_def spy_selfCheck spy_state
      fresh_state failing_def noSpy_verdicts)

text \<open>
  Claim C2, as amended. When \<open>applyConstraint c\<close> returns, the violation log is the
  log as it was, followed by one violation for each accepted action that \<open>c\<close>
  rejects and then by the violations of the self-check: nothing of the log is changed or
  removed, and the rollbacks that run later leave it as it is. Let \<open>a\<close> be a
  previously accepted action of an engine with no rollback in flight. When the call
  returns, \<open>a\<close> is still in the store: the call itself removes nothing. Once the
  rollbacks that the call started have run to their end, \<open>a\<close> is gone from the store
  exactly when \<open>a\<close> violates \<open>c\<close>, the engine is configured for auto-rollback,
  \<open>a\<close> is reversible and a rollback procedure whose \<open>execute\<close> resolves is
  registered for its id; in every other case \<open>a\<close> is still there. (\<open>keyedById\<close>:
  the store maps each id to the action with that id, as \<open>validateAction\<close> fills it; the
  id drawn for the internal action is not the id of \<open>a\<close>.)
\<close>

theorem applyConstraint_removes_only_rolled_back:
  assumes "keyedById s" and "sce_inFlight s = []"
    and "map_of (sce_actions s) (ac_id a) = Some a"
    and "syntheticId s c \<noteq> ac_id a"
  shows "map_of (sce_actions (applyConstraint s now c)) (ac_id a) = Some a
         \<and> map_of (sce_actions (settleRollbacks (applyConstraint s now c))) (ac_id a)
             = (if rolledBackBy s c a then None else Some a)
         \<and> sce_violations (applyConstraint s now c)
             = sce_violations s @ revalidationViolations s now c @ selfCheckViolations s now c
         \<and> sce_violations (settleRollbacks (applyConstraint s now c))
             = sce_violations (applyConstraint s now c)"
  using applyConstraint_settled [OF assms, of now]
  by (simp add: applyConstraint_violations settle_violations)

theorem applyConstraint_removes_only_rolled_back_witness:
  "keyedById spyEngine \<and> sce_inFlight spyEngine = []
   \<and> map_of (sce_actions spyEngine) (ac_id spyAction) = Some spyAction
   \<and> syntheticId spyEngine noSpyConstraint \<noteq> ac_id spyAction
   \<and> map_of (sce_actions (applyConstraint spyEngine 20 noSpyConstraint)) (ac_id spyAction)
       = Some spyAction
   \<and> rolledBackBy spyEngine noSpyConstraint spyAction
   \<and> sce_violations (settleRollbacks (applyConstraint spyEngine 20 noSpyConstraint))
       = [violationOf spyEngine 20 spyAction noSpyConstraint 8]"
proof -
  have synth: "syntheticId spyEngine noSpyConstraint \<noteq> ac_id spyAction"
    by (simp add: spy_synthetic spyAction_def)
  from applyConstraint_removes_only_rolled_back [OF spy_keyed spy_state(5) spy_lookup synth, of 20]
    spy_keyed spy_state(5) spy_lookup synth spy_rolledBack
  show ?thesis by (simp add: spy_violations spy_new_violations)
qed

text \<open>
  Claim C2 as stated fails on an engine with auto-rollback and a rollback procedure
  registered for an accepted reversible action: applying a constraint that this action
  violates starts its rollback, which deletes the action from the store.
\<close>

theorem applyConstraint_removes_counterexample:
  "map_of (sce_actions spyEngine) ''a1'' = Some spyAction
   \<and> map_of (sce_actions (settleRollbacks (applyConstraint spyEngine 20 noSpyConstraint))) ''a1''
       = None"
proof -
  have synth: "syntheticId spyEngine noSpyConstraint \<noteq> ac_id spyAction"
    by (simp add: spy_synthetic spyAction_def)
  have id: "ac_id spyAction = ''a1''" by (simp add: spyAction_def)
  from applyConstraint_settled [OF spy_keyed spy_state(5) spy_lookup synth, of 20]
    spy_rolledBack spy_lookup
  show ?thesis unfolding id by simp
qed

text \<open>
  Claim C8. When the internal \<open>apply_constraint\<close> action violates no constraint of the
  rule set after the insertion of \<open>c\<close>, \<open>applyConstraint c\<close> stores it in the
  accepted-action store under the id drawn for it, and \<open>totalActions\<close> of the compliance
  summary is one higher when the call returns (the id drawn is fresh).
\<close>

theorem applyConstraint_stores_synthetic_action:
  assumes "selfCheckFailures s now c = []" and "syntheticId s c \<notin> fst ` set (sce_actions s)"
  shows "map_of (sce_actions (applyConstraint s now c)) (syntheticId s c)
           = Some (constraintAction (syntheticId s c) now c)
         \<and> cs_totalActions (getComplianceSummary (applyConstraint s now c))
             = cs_totalActions (getComplianceSummary s) + 1"
  using assms by (rule applyConstraint_stores)

theorem applyConstraint_stores_synthetic_action_witness:
  "selfCheckFailures spyEngine 20 noSpyConstraint = []
   \<and> syntheticId spyEngine noSpyConstraint \<notin> fst ` set (sce_actions spyEngine)
   \<and> cs_totalActions (getComplianceSummary spyEngine) = 5
   \<and> cs_totalActions (getComplianceSummary (applyConstraint spyEngine 20 noSpyConstraint)) = 6"
proof -
  have ids: "ec_id noSpyConstraint = ''no-spy''"
    by (simp add: noSpyConstraint_def keywordConstraint_def)
  have a: "selfCheckFailures spyEngine 20 noSpyConstraint = []"
    by (simp add: selfCheckFailures_def rejecting_def spy_state fresh_state ids
        core_accepts_apply noSpy_verdicts)
  have b: "syntheticId spyEngine noSpyConstraint \<notin> fst ` set (sce_actions spyEngine)"
    by (simp add: spy_synthetic spy_state fresh_state)
  have c: "cs_totalActions (getComplianceSummary spyEngine) = 5"
    by (simp add: compliance_fields spy_state fresh_state)
  from applyConstraint_stores_synthetic_action [OF a b] a b c show ?thesis by simp
qed

lemma lower_bad: "toLowerCase ''delete_force_flatten'' = ''delete_force_flatten''"
  by (simp add: toLowerCase_def toLowerCaseChar_def)

lemma core_rejects_bad:
  "\<not> validateAgainstConstraint badAction (observerProtectionConstraint cid t)"
  "\<not> validateAgainstConstraint badAction (nonCoercionConstraint cid t)"
  "\<not> validateAgainstConstraint badAction (reversibilityConstraint cid t)"
  "\<not> validateAgainstConstraint badAction (nonTrivialityConstraint cid t)"
  by (simp_all add: validateAgainstConstraint_def badAction_def
      observerProtectionConstraint_def nonCoercionConstraint_def reversibilityConstraint_def
      nonTrivialityConstraint_def keywordConstraint_def matchesAny_def lower_bad)

lemma bad_failures:
  "length (failingConstraints freshEngine badAction) = 4"
  "length (failingConstraints (snd (validateAction freshEngine 10 badAction)) badAction) = 4"
  by (simp_all add: failingConstraints_def rejecting_def validateAction_frame fresh_state
      core_rejects_bad)

lemma overdrawn_counts:
  "length (sce_actions overdrawnEngine) = 4"
  "length (sce_violations overdrawnEngine) = 8"
proof -
  have ne: "failingConstraints freshEngine badAction \<noteq> []"
    "failingConstraints (snd (validateAction freshEngine 10 badAction)) badAction \<noteq> []"
    using bad_failures by auto
  show "length (sce_actions overdrawnEngine) = 4"
    by (simp add: overdrawnEngine_def validateAction_frame ne) (simp add: fresh_state)
  show "length (sce_violations overdrawnEngine) = 8"
    by (simp add: overdrawnEngine_def validateAction_frame bad_failures) (simp add: fresh_state)
qed

text \<open>
  Claim C7. \<open>getComplianceSummary\<close> reports the size of the accepted-action store, the
  length of the violation log, and the rate \<open>(actions - violations) / actions * 100\<close>,
  which is 100 when the store is empty. A rejected action is not stored while its
  violations are logged. So the rate can leave the interval from 0 to 100: on a new engine
  (four stored internal actions) after two rejections with four violations each it is
  \<open>-100\<close>.
\<close>

theorem compliance_rate_formula:
  "cs_totalActions (getComplianceSummary s) = length (sce_actions s)
   \<and> cs_totalViolations (getComplianceSummary s) = length (sce_violations s)
   \<and> cs_complianceRate (getComplianceSummary s)
       = (if length (sce_actions s) = 0 then 100
          else (real (length (sce_actions s)) - real (length (sce_violations s)))
                 / real (length (sce_actions s)) * 100)
   \<and> (\<not> vr_valid (fst (validateAction s now a)) \<longrightarrow>
        sce_actions (snd (validateAction s now a)) = sce_actions s
        \<and> length (sce_violations (snd (validateAction s now a)))
            = length (sce_violations s) + length (vr_violations (fst (validateAction s now a)))
        \<and> vr_violations (fst (validateAction s now a)) \<noteq> [])
   \<and> cs_totalActions (getComplianceSummary overdrawnEngine) = 4
   \<and> cs_totalViolations (getComplianceSummary overdrawnEngine) = 8
   \<and> cs_complianceRate (getComplianceSummary overdrawnEngine) = - 100"
  using rejected_not_stored [of s now a]
  by (simp add: compliance_fields overdrawn_counts)

theorem compliance_rate_formula_witness:
  "\<not> vr_valid (fst (validateAction freshEngine 10 badAction))
   \<and> sce_actions (snd (validateAction freshEngine 10 badAction)) = sce_actions freshEngine
   \<and> length (sce_violations (snd (validateAction freshEngine 10 badAction))) = 4
   \<and> cs_complianceRate (getComplianceSummary freshEngine) = 100"
proof -
  have ne: "failingConstraints freshEngine badAction \<noteq> []"
    using bad_failures by auto
  then have h: "\<not> vr_valid (fst (validateAction freshEngine 10 badAction))"
    by (simp add: validateAction_frame)
  have v: "length (sce_violations (snd (validateAction freshEngine 10 badAction))) = 4"
    by (simp add: validateAction_frame bad_failures) (simp add: fresh_state)
  have a: "length (sce_actions freshEngine) = 4" "length (sce_violations freshEngine) = 0"
    by (simp_all add: fresh_state)
  from compliance_rate_formula [of freshEngine 10 badAction] h v a
  show ?thesis by simp
qed

text \<open>
  The hypothesis \<open>keyedById\<close> holds of a new engine and is kept by the methods that
  change the accepted-action store.
\<close>

lemma keyedById_keyed: "keyedById s = keyed (sce_actions s)"
  unfolding keyedById_def keyed_def ..

lemma keyed_update:
  assumes "keyed al"
  shows "keyed (AList.update (ac_id a) a al)"
proof -
  from assms have d: "distinct (map fst al)"
    and m: "map fst al = map (\<lambda>p. ac_id (snd p)) al"
    unfolding keyed_def by blast+
  from d have "distinct (map fst (AList.update (ac_id a) a al))"
    by (rule distinct_update)
  moreover from m have "map fst (AList.update (ac_id a) a al)
      = map (\<lambda>p. ac_id (snd p)) (AList.update (ac_id a) a al)"
    by (induction al) auto
  ultimately show ?thesis unfolding keyed_def by blast
qed

lemma keyed_delete:
  assumes "keyed al"
  shows "keyed (AList.delete k al)"
proof -
  from assms have d: "distinct (map fst al)"
    and m: "map fst al = map (\<lambda>p. ac_id (snd p)) al"
    unfolding keyed_def by blast+
  from d have "distinct (map fst (AList.delete k al))"
    by (rule distinct_delete)
  moreover from m have "map fst (AList.delete k al) = map (\<lambda>p. ac_id (snd p)) (AList.delete k al)"
    by (induction al) auto
  ultimately show ?thesis unfolding keyed_def by blast
qed

lemma keyedById_validateAction: "keyedById s \<Longrightarrow> keyedById (snd (validateAction s now a))"
  by (simp add: keyedById_keyed validateAction_frame keyed_update)

lemma keyedById_applyConstraint: "keyedById s \<Longrightarrow> keyedById (applyConstraint s now c)"
  using keyed_update [of "sce_actions s" "constraintAction (syntheticId s c) now c"]
  by (simp add: keyedById_keyed applyConstraint_frame ac_id_constraintAction)

lemma keyedById_resume: "keyedById s \<Longrightarrow> keyedById (rollbackAction_resume s r)"
  by (cases "snd r") (simp_all add: keyedById_keyed rollbackAction_resume_def keyed_delete)

lemma keyedById_fold:
  "keyedById s \<Longrightarrow> keyedById (fold (\<lambda>r s'. rollbackAction_resume s' r) rs s)"
  by (induction rs arbitrary: s) (simp_all add: keyedById_resume)

lemma keyedById_settle: "keyedById s \<Longrightarrow> keyedById (settleRollbacks s)"
  unfolding settleRollbacks_def by (rule keyedById_fold) (simp add: keyedById_keyed)

lemma keyedById_registerRollback: "keyedById s \<Longrightarrow> keyedById (registerRollback s p)"
  by (simp add: keyedById_keyed registerRollback_def)

lemma keyedById_applyCore: "keyedById s \<Longrightarrow> keyedById (applyCore mk now s)"
proof -
  assume "keyedById s"
  then have "keyedById (s\<lparr> sce_uuidCalls := Suc (sce_uuidCalls s) \<rparr>)"
    by (simp add: keyedById_keyed)
  then show ?thesis
    by (simp add: applyCore_def uuidv4_def keyedById_applyConstraint)
qed

lemma keyedById_new: "keyedById (newSelfConstrainingEngine autoRollbackOption uuids now)"
  unfolding newSelfConstrainingEngine_def initializeCoreConstraints_def
  by (intro keyedById_applyCore) (simp add: keyedById_keyed keyed_def)

section \<open>Properties of ReversibilityEngine\<close>

lemma map_entry_keys: "map fst (AList.map_entry k f al) = map fst al"
  by (induction al) auto

lemma map_of_map_entry_same:
  "map_of al k = Some v \<Longrightarrow> map_of (AList.map_entry k f al) k = Some (f v)"
  by (simp add: map_of_map_entry)

lemma addRollbackRecord_frame:
  "re_actions (addRollbackRecord s r) = re_actions s"
  "re_snapshots (addRollbackRecord s r) = re_snapshots s"
  "re_maxHistorySize (addRollbackRecord s r) = re_maxHistorySize s"
  "re_events (addRollbackRecord s r) = re_events s"
  "re_uuids (addRollbackRecord s r) = re_uuids s"
  "re_uuidCalls (addRollbackRecord s r) = re_uuidCalls s"
  "re_appended (addRollbackRecord s r) = Suc (re_appended s)"
  "re_rollbackHistory (addRollbackRecord s r)
     = (if int (Suc (length (re_rollbackHistory s))) > re_maxHistorySize s
        then tl (re_rollbackHistory s @ [r]) else re_rollbackHistory s @ [r])"
  by (simp_all add: addRollbackRecord_def Let_def)

lemma addRollbackRecord_last:
  assumes "1 \<le> re_maxHistorySize s"
  shows "re_rollbackHistory (addRollbackRecord s r) \<noteq> []
         \<and> last (re_rollbackHistory (addRollbackRecord s r)) = r"
proof (cases "re_rollbackHistory s")
  case Nil
  with assms show ?thesis by (simp add: addRollbackRecord_frame)
next
  case (Cons x xs)
  then show ?thesis by (simp add: addRollbackRecord_frame)
qed

lemma rollbackAction_noop:
  "map_of (re_actions s) actionId = None \<Longrightarrow>
     re_rollbackAction s now actionId v = (Resolved False, s)"
  "map_of (re_actions s) actionId = Some u \<Longrightarrow> ra_rolledBack u \<Longrightarrow>
     re_rollbackAction s now actionId v = (Resolved False, s)"
  "map_of (re_actions s) actionId = Some u \<Longrightarrow> snapshotValidation s actionId v = Inr False \<Longrightarrow>
     re_rollbackAction s now actionId v = (Resolved False, s)"
  by (simp_all add: re_rollbackAction_def)

lemma rollbackAction_validation_throws:
  "map_of (re_actions s) actionId = Some u \<Longrightarrow> \<not> ra_rolledBack u \<Longrightarrow>
   snapshotValidation s actionId v = Inl e \<Longrightarrow>
     re_rollbackAction s now actionId v = (Rejected e, s)"
  by (simp add: re_rollbackAction_def)

lemma rollbackAction_success:
  assumes "map_of (re_actions s) actionId = Some u" and "\<not> ra_rolledBack u"
    and "snapshotValidation s actionId v = Inr True"
    and "ra_rollback u (ra_rollbackCalls u) = Resolved ()"
  shows "re_rollbackAction s now actionId v
           = (Resolved True,
              (addRollbackRecord
                 (s\<lparr> re_events := re_events s @ [rollback_started actionId],
                     re_actions :=
                       AList.map_entry actionId
                         (\<lambda>a. a\<lparr> ra_rolledBack := True, ra_completed := False \<rparr>)
                         (AList.map_entry actionId
                            (\<lambda>a. a\<lparr> ra_rollbackCalls := Suc (ra_rollbackCalls a) \<rparr>)
                            (re_actions s)),
                     re_uuidCalls := Suc (re_uuidCalls s) \<rparr>)
                 (rollbackRecord s now actionId u))
              \<lparr> re_events := re_events s
                   @ [rollback_started actionId,
                      rollback_completed (rollbackRecord s now actionId u)] \<rparr>)"
  using assms
  by (simp add: re_rollbackAction_def re_uuidv4_def rollbackRecord_def Let_def
      addRollbackRecord_frame(4))

lemma rollbackAction_failure:
  assumes "map_of (re_actions s) actionId = Some u" and "\<not> ra_rolledBack u"
    and "snapshotValidation s actionId v = Inr True"
    and "ra_rollback u (ra_rollbackCalls u) = Rejected e"
  shows "re_rollbackAction s now actionId v
           = (Resolved False,
              (addRollbackRecord
                 (s\<lparr> re_events := re_events s @ [rollback_started actionId],
                     re_actions :=
                       AList.map_entry actionId
                         (\<lambda>a. a\<lparr> ra_rollbackCalls := Suc (ra_rollbackCalls a) \<rparr>)
                         (re_actions s),
                     re_uuidCalls := Suc (re_uuidCalls s) \<rparr>)
                 (rollbackRecord s now actionId u))
              \<lparr> re_events := re_events s
                   @ [rollback_started actionId,
                      re_rollback_failed (rollbackRecord s now actionId u)] \<rparr>)"
  using assms
  by (simp add: re_rollbackAction_def re_uuidv4_def rollbackRecord_def Let_def
      addRollbackRecord_frame(4))

lemma rollbackAction_hangs:
  assumes "map_of (re_actions s) actionId = Some u" and "\<not> ra_rolledBack u"
    and "snapshotValidation s actionId v = Inr True"
    and "ra_rollback u (ra_rollbackCalls u) = NeverSettles"
  shows "re_rollbackAction s now actionId v
           = (NeverSettles,
              s\<lparr> re_events := re_events s @ [rollback_started actionId],
                 re_actions :=
                   AList.map_entry actionId
                     (\<lambda>a. a\<lparr> ra_rollbackCalls := Suc (ra_rollbackCalls a) \<rparr>)
                     (re_actions s) \<rparr>)"
  using assms by (simp add: re_rollbackAction_def Let_def)

lemma rollbackAction_frame:
  "re_snapshots (snd (re_rollbackAction s now uid v)) = re_snapshots s
   \<and> re_maxHistorySize (snd (re_rollbackAction s now uid v)) = re_maxHistorySize s
   \<and> re_uuids (snd (re_rollbackAction s now uid v)) = re_uuids s"
proof (cases "map_of (re_actions s) uid")
  case None
  then show ?thesis by (simp add: rollbackAction_noop)
next
  case (Some u)
  show ?thesis
  proof (cases "ra_rolledBack u")
    case True
    with Some show ?thesis by (simp add: rollbackAction_noop)
  next
    case nr: False
    show ?thesis
    proof (cases "snapshotValidation s uid v")
      case (Inl e)
      from rollbackAction_validation_throws [OF Some nr Inl] show ?thesis by simp
    next
      case (Inr valid)
      show ?thesis
      proof (cases valid)
        case False
        with Some Inr show ?thesis by (simp add: rollbackAction_noop)
      next
        case True
        with Inr have ok: "snapshotValidation s uid v = Inr True" by simp
        show ?thesis
        proof (cases "ra_rollback u (ra_rollbackCalls u)")
          case (Resolved x)
          then have "ra_rollback u (ra_rollbackCalls u) = Resolved ()" by simp
          from rollbackAction_success [OF Some nr ok this] show ?thesis
            by (simp add: addRollbackRecord_frame)
        next
          case (Rejected e)
          from rollbackAction_failure [OF Some nr ok Rejected] show ?thesis
            by (simp add: addRollbackRecord_frame)
        next
          case NeverSettles
          from rollbackAction_hangs [OF Some nr ok NeverSettles] show ?thesis by simp
        qed
      qed
    qed
  qed
qed

lemma snapshotValidation_cong:
  "re_snapshots s' = re_snapshots s \<Longrightarrow> snapshotValidation s' uid v = snapshotValidation s uid v"
  by (cases v) (simp_all add: snapshotValidation_def)

lemma rollbackRecord_actionId: "rr_actionId (rollbackRecord s now uid u) = uid"
  by (simp add: rollbackRecord_def)

lemma rollbackAction_runs:
  assumes "map_of (re_actions s) uid = Some u" and "\<not> ra_rolledBack u"
    and "snapshotValidation s uid v = Inr True"
    and "ra_rollback u (ra_rollbackCalls u) \<noteq> NeverSettles"
  shows "fst (re_rollbackAction s now uid v)
           = Resolved (ra_rollback u (ra_rollbackCalls u) = Resolved ())
         \<and> re_appended (snd (re_rollbackAction s now uid v)) = Suc (re_appended s)
         \<and> (\<exists>u'. map_of (re_actions (snd (re_rollbackAction s now uid v))) uid = Some u'
                  \<and> ra_rollback u' = ra_rollback u)
         \<and> (1 \<le> re_maxHistorySize s \<longrightarrow>
              re_rollbackHistory (snd (re_rollbackAction s now uid v)) \<noteq> []
              \<and> rr_actionId (last (re_rollbackHistory (snd (re_rollbackAction s now uid v)))) = uid)"
proof (cases "ra_rollback u (ra_rollbackCalls u)")
  case (Resolved x)
  then have ok: "ra_rollback u (ra_rollbackCalls u) = Resolved ()" by simp
  let ?s1 = "s\<lparr> re_events := re_events s @ [rollback_started uid],
                 re_actions :=
                   AList.map_entry uid (\<lambda>a. a\<lparr> ra_rolledBack := True, ra_completed := False \<rparr>)
                     (AList.map_entry uid (\<lambda>a. a\<lparr> ra_rollbackCalls := Suc (ra_rollbackCalls a) \<rparr>)
                        (re_actions s)),
                 re_uuidCalls := Suc (re_uuidCalls s) \<rparr>"
  have h: "1 \<le> re_maxHistorySize s \<Longrightarrow> 1 \<le> re_maxHistorySize ?s1" by simp
  from rollbackAction_success [OF assms(1-3) ok, of now]
    addRollbackRecord_last [OF h, of "rollbackRecord s now uid u"] assms(1) ok
  show ?thesis
    by (simp add: addRollbackRecord_frame map_of_map_entry rollbackRecord_actionId)
next
  case (Rejected e)
  let ?s1 = "s\<lparr> re_events := re_events s @ [rollback_started uid],
                 re_actions :=
                   AList.map_entry uid (\<lambda>a. a\<lparr> ra_rollbackCalls := Suc (ra_rollbackCalls a) \<rparr>)
                     (re_actions s),
                 re_uuidCalls := Suc (re_uuidCalls s) \<rparr>"
  have h: "1 \<le> re_maxHistorySize s \<Longrightarrow> 1 \<le> re_maxHistorySize ?s1" by simp
  from rollbackAction_failure [OF assms(1-3) Rejected, of now]
    addRollbackRecord_last [OF h, of "rollbackRecord s now uid u"] assms(1) Rejected
  show ?thesis
    by (simp add: addRollbackRecord_frame map_of_map_entry rollbackRecord_actionId)
next
  case NeverSettles
  with assms(4) show ?thesis by simp
qed

lemma loopInv_events: "loopInv base uid rb (s\<lparr> re_events := e \<rparr>) = loopInv base uid rb s"
  by (simp add: loopInv_def split: option.split)

lemma loopInv_rollback:
  assumes "loopInv base uid rb s" and "snapshotValidation s uid v = Inr True"
    and "\<forall>n. rb n \<noteq> NeverSettles"
  shows "(\<exists>b. fst (re_rollbackAction s now uid v) = Resolved b)
         \<and> loopInv base uid rb (snd (re_rollbackAction s now uid v))
         \<and> base < re_appended (snd (re_rollbackAction s now uid v))"
proof -
  from assms(1) obtain u where u: "map_of (re_actions s) uid = Some u"
    and rb: "ra_rollback u = rb"
    and rolled: "\<not> ra_rolledBack u \<or> base < re_appended s"
    and le: "base \<le> re_appended s"
    by (auto simp: loopInv_def split: option.splits)
  show ?thesis
  proof (cases "ra_rolledBack u")
    case True
    with u have "re_rollbackAction s now uid v = (Resolved False, s)"
      by (simp add: rollbackAction_noop)
    with assms(1) True rolled show ?thesis by auto
  next
    case nr: False
    from assms(3) rb have settles: "ra_rollback u (ra_rollbackCalls u) \<noteq> NeverSettles" by simp
    from rollbackAction_runs [OF u nr assms(2) settles, of now]
      rollbackAction_frame [of s now uid v] le rb
    show ?thesis
      by (auto simp: loopInv_def split: option.splits)
  qed
qed

lemma callOnError_returns:
  assumes "\<forall>onError. ro_onError options = Some onError \<longrightarrow> onError e = None"
  shows "fst (callOnError s options e) = None
         \<and> loopInv base uid rb (snd (callOnError s options e)) = loopInv base uid rb s
         \<and> re_snapshots (snd (callOnError s options e)) = re_snapshots s
         \<and> re_maxHistorySize (snd (callOnError s options e)) = re_maxHistorySize s"
  using assms by (simp add: callOnError_def loopInv_events split: option.split)

lemma attemptLoop_exhausted:
  "loopInv base uid rb s \<Longrightarrow>
   (\<forall>k. attempt \<le> k \<and> int k \<le> maxAttempts \<longrightarrow> isl (executeWithTimeout execute k)) \<Longrightarrow>
   (\<forall>onError k. ro_onError options = Some onError \<and> attempt \<le> k \<and> int k \<le> maxAttempts
        \<longrightarrow> onError (projl (executeWithTimeout execute k)) = None) \<Longrightarrow>
   snapshotValidation s uid (ro_validateBeforeRollback options) = Inr True \<Longrightarrow>
   (\<forall>n. rb n \<noteq> NeverSettles) \<Longrightarrow>
     fst (attemptLoop s now uid execute options maxAttempts attempt lastError)
         = Resolved (None, if int attempt \<le> maxAttempts
                           then Some (projl (executeWithTimeout execute (nat maxAttempts)))
                           else lastError)
     \<and> loopInv base uid rb (snd (attemptLoop s now uid execute options maxAttempts attempt lastError))
     \<and> re_snapshots (snd (attemptLoop s now uid execute options maxAttempts attempt lastError))
         = re_snapshots s
     \<and> re_maxHistorySize (snd (attemptLoop s now uid execute options maxAttempts attempt lastError))
         = re_maxHistorySize s"
proof (induction "nat (maxAttempts + 1 - int attempt)" arbitrary: s attempt lastError)
  case 0
  then have "\<not> int attempt \<le> maxAttempts" by simp
  with "0.prems" show ?case by (simp add: attemptLoop.simps)
next
  case (Suc n)
  then have le: "int attempt \<le> maxAttempts" by simp
  with Suc.prems(2) have "isl (executeWithTimeout execute attempt)" by simp
  then obtain e where e: "executeWithTimeout execute attempt = Inl e"
    by (metis isl_def)
  define v where "v = ro_validateBeforeRollback options"
  define s1 where "s1 = s\<lparr> re_events := re_events s @ [action_error uid e attempt] \<rparr>"
  define s2 where "s2 = snd (callOnError s1 options e)"
  define s3 where "s3 = (if int attempt < maxAttempts
                         then snd (re_rollbackAction s2 now uid v) else s2)"
  from Suc.prems(3) le e
  have quiet: "\<forall>onError. ro_onError options = Some onError \<longrightarrow> onError e = None"
    by (metis order_refl sum.sel(1))
  note called = callOnError_returns [OF quiet, of s1 base uid rb, folded s2_def]
  from called Suc.prems(1) have inv2: "loopInv base uid rb s2"
    by (simp add: s1_def loopInv_events)
  from called have fr2: "re_snapshots s2 = re_snapshots s"
      "re_maxHistorySize s2 = re_maxHistorySize s"
    by (simp_all add: s1_def)
  from Suc.prems(4) have val2: "snapshotValidation s2 uid v = Inr True"
    by (simp add: snapshotValidation_cong [OF fr2(1)] v_def)
  note pass = loopInv_rollback [OF inv2 val2 Suc.prems(5), of now]
  from pass obtain b where b: "fst (re_rollbackAction s2 now uid v) = Resolved b" by blast
  have step: "attemptLoop s now uid execute options maxAttempts attempt lastError
                = attemptLoop s3 now uid execute options maxAttempts (Suc attempt) (Some e)"
    using le e called b
    by (subst attemptLoop.simps)
       (simp add: s1_def [symmetric] s2_def [symmetric] s3_def v_def [symmetric] Let_def)
  have inv3: "loopInv base uid rb s3"
    using inv2 pass by (simp add: s3_def)
  have fr3: "re_snapshots s3 = re_snapshots s" "re_maxHistorySize s3 = re_maxHistorySize s"
    using fr2 rollbackAction_frame [of s2 now uid v]
    by (simp_all add: s3_def)
  from Suc.prems(4) have val3: "snapshotValidation s3 uid (ro_validateBeforeRollback options) = Inr True"
    by (simp add: snapshotValidation_cong [OF fr3(1)])
  have m: "n = nat (maxAttempts + 1 - int (Suc attempt))"
    using Suc.hyps(2) by simp
  have rest: "\<forall>k. Suc attempt \<le> k \<and> int k \<le> maxAttempts \<longrightarrow> isl (executeWithTimeout execute k)"
    using Suc.prems(2) by simp
  have rest': "\<forall>onError k. ro_onError options = Some onError \<and> Suc attempt \<le> k \<and> int k \<le> maxAttempts
        \<longrightarrow> onError (projl (executeWithTimeout execute k)) = None"
    using Suc.prems(3) by simp
  have last: "\<not> int (Suc attempt) \<le> maxAttempts \<Longrightarrow> attempt = nat maxAttempts"
    using le by simp
  from Suc.hyps(1) [OF m inv3 rest rest' val3 Suc.prems(5), of "Some e"] fr3 e last le
  show ?case unfolding step by auto
qed

text \<open>
  Claim C5, as amended. Let \<open>M\<close> be the configured \<open>maxAttempts\<close> (3 when the option
  is absent). When each of the attempts \<open>1, ..., M\<close> to execute the unit fails (by
  rejection or by timeout), \<open>onError\<close>, if given, returns normally on the errors of these
  attempts, \<open>validateBeforeRollback\<close>, if given, accepts the snapshot of the unit, if
  there is one, and the unit's \<open>rollback\<close> settles, the promise of
  \<open>executeWithRollback\<close> resolves with the result \<open>success = false\<close>,
  \<open>attempts = M\<close> and the error of the last attempt (\<open>Unknown error\<close> when \<open>M\<close>
  allows no attempt), and at least one rollback record was pushed to the history during
  the call; when the history may hold a record, it ends with a record of this unit.
\<close>

theorem executeWithRollback_exhausted:
  assumes "M = (case ro_maxAttempts options of None \<Rightarrow> 3 | Some m \<Rightarrow> m)"
    and "\<forall>k. 1 \<le> k \<and> int k \<le> M \<longrightarrow> isl (executeWithTimeout (uw_execute work) k)"
    and "\<forall>onError k. ro_onError options = Some onError \<and> 1 \<le> k \<and> int k \<le> M
           \<longrightarrow> onError (projl (executeWithTimeout (uw_execute work) k)) = None"
    and "snapshotValidation s (re_uuids s (re_uuidCalls s)) (ro_validateBeforeRollback options)
           = Inr True"
    and "\<forall>n. uw_rollback work n \<noteq> NeverSettles"
  shows "fst (executeWithRollback s now work options)
           = Resolved \<lparr> er_success = False, er_actionId = re_uuids s (re_uuidCalls s),
                        er_result = None,
                        er_error = Some (if 1 \<le> M
                                         then projl (executeWithTimeout (uw_execute work) (nat M))
                                         else Error ''Unknown error''),
                        er_attempts = M \<rparr>
     \<and> re_appended s < re_appended (snd (executeWithRollback s now work options))
     \<and> (1 \<le> re_maxHistorySize s \<longrightarrow>
          re_rollbackHistory (snd (executeWithRollback s now work options)) \<noteq> []
          \<and> rr_actionId (last (re_rollbackHistory (snd (executeWithRollback s now work options))))
              = re_uuids s (re_uuidCalls s))"
proof -
  define uid where "uid = re_uuids s (re_uuidCalls s)"
  define ra where "ra =
     \<lparr> ra_id = uid, ra_name = uw_name work, ra_execute = uw_execute work,
       ra_rollback = uw_rollback work, ra_metadata = uw_metadata work,
       ra_timestamp = now, ra_completed = False, ra_rolledBack = False,
       ra_rollbackCalls = 0 \<rparr>"
  define s2 where "s2 = s\<lparr> re_uuidCalls := Suc (re_uuidCalls s),
                           re_actions := AList.update uid ra (re_actions s) \<rparr>"
  define L where "L = attemptLoop s2 now uid (uw_execute work) options M 1 None"
  define v where "v = ro_validateBeforeRollback options"
  define lastError where "lastError =
     (if 1 \<le> M then Some (projl (executeWithTimeout (uw_execute work) (nat M))) else None)"
  from assms(1) have M: "maxAttemptsOf options = M" by (simp add: maxAttemptsOf_def)
  have inv: "loopInv (re_appended s) uid (uw_rollback work) s2"
    by (simp add: loopInv_def s2_def update_conv' ra_def)
  have snaps2: "re_snapshots s2 = re_snapshots s" by (simp add: s2_def)
  from assms(4) have val2: "snapshotValidation s2 uid (ro_validateBeforeRollback options) = Inr True"
    by (simp add: snapshotValidation_cong [OF snaps2] uid_def)
  note loop = attemptLoop_exhausted [OF inv _ _ val2 assms(5), of 1 M "uw_execute work" now None,
      folded L_def]
  from loop assms(2,3) have none: "fst L = Resolved (None, lastError)"
    and inv3: "loopInv (re_appended s) uid (uw_rollback work) (snd L)"
    and snaps: "re_snapshots (snd L) = re_snapshots s"
    and size: "re_maxHistorySize (snd L) = re_maxHistorySize s"
    by (simp_all add: s2_def lastError_def)
  from assms(4) have val3: "snapshotValidation (snd L) uid v = Inr True"
    by (simp add: snapshotValidation_cong [OF snaps] uid_def v_def)
  note final = loopInv_rollback [OF inv3 val3 assms(5), of now]
  then obtain b where b: "fst (re_rollbackAction (snd L) now uid v) = Resolved b" by blast
  have run: "executeWithRollback s now work options
      = (Resolved \<lparr> er_success = False, er_actionId = uid, er_result = None,
                    er_error = Some (case lastError of None \<Rightarrow> Error ''Unknown error''
                                     | Some e \<Rightarrow> e),
                    er_attempts = M \<rparr>,
         snd (re_rollbackAction (snd L) now uid v))"
    using none b unfolding L_def s2_def ra_def uid_def v_def
    by (simp add: executeWithRollback_def re_uuidv4_def split_beta Let_def M)
  from final
  have fin: "loopInv (re_appended s) uid (uw_rollback work) (snd (re_rollbackAction (snd L) now uid v))"
    and grew: "re_appended s < re_appended (snd (re_rollbackAction (snd L) now uid v))"
    by simp_all
  from rollbackAction_frame [of "snd L" now uid v] size
  have size': "re_maxHistorySize (snd (re_rollbackAction (snd L) now uid v))
      = re_maxHistorySize s" by simp
  from fin grew size'
  have hist: "1 \<le> re_maxHistorySize s \<longrightarrow>
      re_rollbackHistory (snd (re_rollbackAction (snd L) now uid v)) \<noteq> []
      \<and> rr_actionId (last (re_rollbackHistory (snd (re_rollbackAction (snd L) now uid v))))
          = uid"
    by (auto simp: loopInv_def)
  show ?thesis
    unfolding run using grew hist by (simp add: uid_def lastError_def)
qed

text \<open>
  Claim C3, as amended. For a registered unit that is not rolled back and passes the
  optional snapshot validation, a rollback pass whose \<open>rollback\<close> succeeds returns
  true, sets \<open>completed = false\<close> and \<open>rolledBack = true\<close> on the unit, which stays
  in the registry under its id (the registry's keys and the snapshots are unchanged),
  appends a successful record to the history (evicting the oldest when over the bound) and
  publishes \<open>rollback_started\<close> and then \<open>rollback_completed\<close> with that record.
\<close>

theorem rollbackAction_success_keeps_unit:
  assumes "map_of (re_actions s) actionId = Some u" and "\<not> ra_rolledBack u"
    and "snapshotValidation s actionId v = Inr True"
    and "ra_rollback u (ra_rollbackCalls u) = Resolved ()"
  shows "fst (re_rollbackAction s now actionId v) = Resolved True
     \<and> getAction (snd (re_rollbackAction s now actionId v)) actionId
         = Some (u\<lparr> ra_completed := False, ra_rolledBack := True,
                    ra_rollbackCalls := Suc (ra_rollbackCalls u) \<rparr>)
     \<and> map fst (re_actions (snd (re_rollbackAction s now actionId v))) = map fst (re_actions s)
     \<and> re_snapshots (snd (re_rollbackAction s now actionId v)) = re_snapshots s
     \<and> re_rollbackHistory (snd (re_rollbackAction s now actionId v))
         = (if int (Suc (length (re_rollbackHistory s))) > re_maxHistorySize s
            then tl (re_rollbackHistory s
                     @ [\<lparr> rr_id = re_uuids s (re_uuidCalls s), rr_actionId = actionId,
                          rr_actionName = ra_name u, rr_timestamp = now, rr_success = True,
                          rr_error = None \<rparr>])
            else re_rollbackHistory s
                 @ [\<lparr> rr_id = re_uuids s (re_uuidCalls s), rr_actionId = actionId,
                      rr_actionName = ra_name u, rr_timestamp = now, rr_success = True,
                      rr_error = None \<rparr>])
     \<and> re_events (snd (re_rollbackAction s now actionId v))
         = re_events s
           @ [rollback_started actionId,
              rollback_completed
                \<lparr> rr_id = re_uuids s (re_uuidCalls s), rr_actionId = actionId,
                  rr_actionName = ra_name u, rr_timestamp = now, rr_success = True,
                  rr_error = None \<rparr>]"
  unfolding rollbackAction_success [OF assms] getAction_def
  using assms(1,4)
  by (simp add: addRollbackRecord_frame map_of_map_entry map_entry_keys rollbackRecord_def)

lemma completed_state:
  "completedEngine
     = \<lparr> re_actions =
           [(''uuid-'',
             \<lparr> ra_id = ''uuid-'', ra_name = ''set-counter'', ra_execute = (\<lambda>k. Resolves ''42''),
               ra_rollback = (\<lambda>n. Resolved ()), ra_metadata = [], ra_timestamp = 10,
               ra_completed = True, ra_rolledBack = False, ra_rollbackCalls = 0 \<rparr>)],
         re_snapshots = [], re_rollbackHistory = [], re_maxHistorySize = 1000,
         re_events = [action_completed ''uuid-'' ''42''],
         re_uuids = exampleUuids, re_uuidCalls = Suc 0, re_appended = 0 \<rparr>"
  by (simp add: completedEngine_def executeWithRollback_def newReversibilityEngine_def
      re_uuidv4_def okWork_def defaultOptions_def maxAttemptsOf_def
      attemptLoop.simps [of _ _ _ _ _ _ "Suc 0"] executeWithTimeout_def uuid_values)

theorem rollbackAction_success_keeps_unit_witness:
  "fst (re_rollbackAction completedEngine 20 ''uuid-'' None) = Resolved True
   \<and> getAction (snd (re_rollbackAction completedEngine 20 ''uuid-'' None)) ''uuid-''
       = Some \<lparr> ra_id = ''uuid-'', ra_name = ''set-counter'', ra_execute = (\<lambda>k. Resolves ''42''),
                ra_rollback = (\<lambda>n. Resolved ()), ra_metadata = [], ra_timestamp = 10,
                ra_completed = False, ra_rolledBack = True, ra_rollbackCalls = Suc 0 \<rparr>
   \<and> length (re_rollbackHistory (snd (re_rollbackAction completedEngine 20 ''uuid-'' None))) = 1"
proof -
  let ?u = "\<lparr> ra_id = ''uuid-'', ra_name = ''set-counter'', ra_execute = (\<lambda>k. Resolves ''42''),
               ra_rollback = (\<lambda>n. Resolved ()), ra_metadata = [], ra_timestamp = 10,
               ra_completed = True, ra_rolledBack = False, ra_rollbackCalls = 0 \<rparr>"
  have a: "map_of (re_actions completedEngine) ''uuid-'' = Some ?u"
    by (simp add: completed_state)
  have b: "\<not> ra_rolledBack ?u" by simp
  have c: "snapshotValidation completedEngine ''uuid-'' None = Inr True"
    by (simp add: snapshotValidation_def)
  have d: "ra_rollback ?u (ra_rollbackCalls ?u) = Resolved ()" by simp
  from rollbackAction_success_keeps_unit [OF a b c d, of 20]
  show ?thesis by (simp add: completed_state)
qed

text \<open>
  Claim C3 as stated fails: after a successful rollback pass the unit is still in the
  registry (\<open>getAction\<close> returns it); the pass removes nothing.
\<close>

theorem rollbackAction_removes_unit_counterexample:
  "fst (re_rollbackAction completedEngine 20 ''uuid-'' None) = Resolved True
   \<and> getAction (snd (re_rollbackAction completedEngine 20 ''uuid-'' None)) ''uuid-'' \<noteq> None
   \<and> map fst (re_actions (snd (re_rollbackAction completedEngine 20 ''uuid-'' None))) = [''uuid-'']"
proof -
  let ?u = "\<lparr> ra_id = ''uuid-'', ra_name = ''set-counter'', ra_execute = (\<lambda>k. Resolves ''42''),
               ra_rollback = (\<lambda>n. Resolved ()), ra_metadata = [], ra_timestamp = 10,
               ra_completed = True, ra_rolledBack = False, ra_rollbackCalls = 0 \<rparr>"
  have a: "map_of (re_actions completedEngine) ''uuid-'' = Some ?u"
    by (simp add: completed_state)
  have b: "\<not> ra_rolledBack ?u" by simp
  have c: "snapshotValidation completedEngine ''uuid-'' None = Inr True"
    by (simp add: snapshotValidation_def)
  have d: "ra_rollback ?u (ra_rollbackCalls ?u) = Resolved ()" by simp
  show ?thesis
    unfolding rollbackAction_success [OF a b c d] getAction_def
    by (simp add: addRollbackRecord_frame map_of_map_entry map_entry_keys completed_state)
qed

theorem executeWithRollback_exhausted_witness:
  "fst (executeWithRollback completedEngine 30 flakyWork twoAttempts)
     = Resolved \<lparr> er_success = False, er_actionId = ''uuid-x'', er_result = None,
                  er_error = Some (Error ''Operation timeout''), er_attempts = 2 \<rparr>
   \<and> 0 < re_appended (snd (executeWithRollback completedEngine 30 flakyWork twoAttempts))
   \<and> rr_actionId (last (re_rollbackHistory
         (snd (executeWithRollback completedEngine 30 flakyWork twoAttempts)))) = ''uuid-x''"
proof -
  have m: "(2::int) = (case ro_maxAttempts twoAttempts of None \<Rightarrow> 3 | Some m \<Rightarrow> m)"
    by (simp add: twoAttempts_def)
  have a: "\<forall>k. 1 \<le> k \<and> int k \<le> 2 \<longrightarrow> isl (executeWithTimeout (uw_execute flakyWork) k)"
    by (simp add: executeWithTimeout_def flakyWork_def)
  have b: "\<forall>onError k. ro_onError twoAttempts = Some onError \<and> 1 \<le> k \<and> int k \<le> 2
             \<longrightarrow> onError (projl (executeWithTimeout (uw_execute flakyWork) k)) = None"
    by (auto simp: twoAttempts_def)
  have c: "snapshotValidation completedEngine
             (re_uuids completedEngine (re_uuidCalls completedEngine))
             (ro_validateBeforeRollback twoAttempts) = Inr True"
    by (simp add: snapshotValidation_def twoAttempts_def)
  have d: "\<forall>n. uw_rollback flakyWork n \<noteq> NeverSettles"
    by (simp add: flakyWork_def)
  from executeWithRollback_exhausted [OF m a b c d, of 30]
  show ?thesis
    by (simp add: completed_state uuid_values executeWithTimeout_def flakyWork_def)
qed

text \<open>
  Claim C5 as stated fails. Every attempt to execute the unit fails and no validation
  callback is given, but \<open>onError\<close> throws at the first failed attempt: the exception
  leaves the \<open>catch\<close> block, the promise of \<open>executeWithRollback\<close> rejects with it
  instead of resolving with a failed result, and no rollback pass has run, so no record
  was pushed to the history.
\<close>

theorem executeWithRollback_raises_counterexample:
  "isl (executeWithTimeout (uw_execute flakyWork) 1)
   \<and> isl (executeWithTimeout (uw_execute flakyWork) 2)
   \<and> isl (executeWithTimeout (uw_execute flakyWork) 3)
   \<and> ro_maxAttempts throwingOptions = None
   \<and> ro_validateBeforeRollback throwingOptions = None
   \<and> fst (executeWithRollback completedEngine 30 flakyWork throwingOptions)
       = Rejected (Error ''handler failed'')
   \<and> re_appended (snd (executeWithRollback completedEngine 30 flakyWork throwingOptions))
       = re_appended completedEngine
   \<and> re_rollbackHistory (snd (executeWithRollback completedEngine 30 flakyWork throwingOptions))
       = re_rollbackHistory completedEngine"
  by (simp add: executeWithRollback_def re_uuidv4_def flakyWork_def throwingOptions_def
      maxAttemptsOf_def attemptLoop.simps [of _ _ _ _ _ _ "Suc 0"] executeWithTimeout_def
      callOnError_def completed_state)

text \<open>
  A unit whose \<open>rollback\<close> never settles: the rollback pass after the first failed
  attempt is awaited for ever, and \<open>executeWithRollback\<close> gives no result.
\<close>

lemma executeWithRollback_waits_for_rollback:
  "fst (executeWithRollback completedEngine 30 hangingWork defaultOptions) = NeverSettles"
  by (simp add: executeWithRollback_def re_uuidv4_def hangingWork_def defaultOptions_def
      maxAttemptsOf_def attemptLoop.simps [of _ _ _ _ _ _ "Suc 0"] executeWithTimeout_def
      callOnError_def re_rollbackAction_def snapshotValidation_def completed_state
      uuid_values Let_def)

end
